theory Spec2Isabelle
  imports Complex_Main
begin

section \<open>Curling simulator: physics engine, rules and game controller\<close>

text \<open>
  A shallow embedding of the deterministic core of the curling simulator: the sheet
  constants, the stone and world records, the ice force model, the fixed-step integrator,
  the collision resolver, the rules engine, the simulation world and the game controller.
  JavaScript numbers are modelled as mathematical reals (no rounding, no NaN, no
  Infinity); in-place mutation of the stone array is modelled by returning the new list.
\<close>

subsection \<open>Sheet and stone constants (utils/constants.ts)\<close>

definition FT :: real where "FT = 0.3048"
definition SHEET_WIDTH :: real where "SHEET_WIDTH = 15.5 * FT"
definition TEE_Z :: real where "TEE_Z = 57 * FT"
definition HOG_Z :: real where "HOG_Z = TEE_Z - 21 * FT"
definition BACK_LINE_Z :: real where "BACK_LINE_Z = TEE_Z + 6 * FT"
definition HACK_Z :: real where "HACK_Z = TEE_Z + 12 * FT"
definition STONE_RADIUS :: real where "STONE_RADIUS = 0.145"
definition STONE_MASS :: real where "STONE_MASS = 19.96"

subsection \<open>Core types and tuning constants (physics/types.ts)\<close>

datatype Team = Red | Yellow

record Vec2 =
  xc :: real
  zc :: real

record StoneState =
  pos :: Vec2
  vel :: Vec2
  omega :: real
  angle :: real
  team :: Team
  inPlay :: bool
  deliveryIndex :: nat

record IceParams =
  mu0 :: real
  muMax :: real
  curlCoeff :: real
  kSpin :: real
  sweepMuFactor :: real
  sweepCurlFactor :: real

record ShotRelease =
  rel_x :: real
  rel_z :: real
  rel_speed :: real
  rel_angle :: real
  rel_omega :: real

definition DEFAULT_ICE_PARAMS :: IceParams where
  "DEFAULT_ICE_PARAMS =
     \<lparr>mu0 = 0.008, muMax = 0.06, curlCoeff = 0.028, kSpin = 0.00008,
      sweepMuFactor = 0.78, sweepCurlFactor = 0.45\<rparr>"

definition PHYSICS_DT :: real where "PHYSICS_DT = 1 / 120"
definition GRAVITY :: real where "GRAVITY = 9.81"
definition SETTLE_VEL_THRESHOLD :: real where "SETTLE_VEL_THRESHOLD = 0.003"
definition SETTLE_OMEGA_THRESHOLD :: real where "SETTLE_OMEGA_THRESHOLD = 0.01"
definition COLLISION_RESTITUTION :: real where "COLLISION_RESTITUTION = 0.85"
definition COLLISION_TANGENTIAL_FRICTION :: real where "COLLISION_TANGENTIAL_FRICTION = 0.3"

text \<open>
  The type \<open>-1 | 1\<close> of the target end: \<open>TowardNegZ\<close> is \<open>-1\<close> (playing toward the
  negative-Z house), \<open>TowardPosZ\<close> is \<open>1\<close>; \<open>te_val\<close> is the number the code multiplies
  with.
\<close>

datatype TargetEnd = TowardNegZ | TowardPosZ

fun te_val :: "TargetEnd \<Rightarrow> real" where
  "te_val TowardNegZ = -1"
| "te_val TowardPosZ = 1"

subsection \<open>Rules engine (physics/rules.ts)\<close>

definition HALF_WIDTH :: real where "HALF_WIDTH = SHEET_WIDTH / 2"

text \<open>
  The body of the loop of \<open>applyRules\<close> for one stone; the loop visits every stone once and
  the stones do not interact, so the loop is a \<open>map\<close>.
\<close>

definition applyRulesStone :: "TargetEnd \<Rightarrow> StoneState \<Rightarrow> StoneState" where
  "applyRulesStone tEnd s =
     (let backLine = te_val tEnd * BACK_LINE_Z in
      if \<not> inPlay s then s
      else if \<bar>xc (pos s)\<bar> > HALF_WIDTH + STONE_RADIUS * 2 then s\<lparr>inPlay := False\<rparr>
      else if tEnd = TowardNegZ \<and> zc (pos s) < backLine - STONE_RADIUS
        then s\<lparr>inPlay := False\<rparr>
      else if tEnd = TowardPosZ \<and> zc (pos s) > backLine + STONE_RADIUS
        then s\<lparr>inPlay := False\<rparr>
      else s)"

definition applyRules :: "StoneState list \<Rightarrow> int \<Rightarrow> TargetEnd \<Rightarrow> StoneState list" where
  "applyRules sts dlvIndex tEnd = map (applyRulesStone tEnd) sts"

definition checkHogLineViolation :: "StoneState \<Rightarrow> TargetEnd \<Rightarrow> bool" where
  "checkHogLineViolation stone tEnd =
     (let hogLine = te_val tEnd * HOG_Z in
      if tEnd = TowardNegZ then zc (pos stone) + STONE_RADIUS > hogLine
      else zc (pos stone) - STONE_RADIUS < hogLine)"

record Score =
  red :: nat
  yellow :: nat

record ScoreResult = Score +
  winner :: "Team option"

text \<open>The distance of a stone from the button of the target house, as \<open>scoreEnd\<close> computes it.\<close>

definition buttonDist :: "TargetEnd \<Rightarrow> StoneState \<Rightarrow> real" where
  "buttonDist tEnd s =
     sqrt ((xc (pos s) - 0)\<^sup>2 + (zc (pos s) - te_val tEnd * TEE_Z)\<^sup>2)"

text \<open>
  \<open>cutoff\<close> is \<open>None\<close> for JavaScript's \<open>Infinity\<close> (no opposing stone in play): every
  distance is below it.
\<close>

fun belowCutoff :: "real \<Rightarrow> real option \<Rightarrow> bool" where
  "belowCutoff d None = True"
| "belowCutoff d (Some c) = (d < c)"

text \<open>
  \<open>Array.prototype.sort\<close> with the comparator \<open>a.dist - b.dist\<close> is a stable ascending
  sort on the distance: \<open>sort_key snd\<close>. The counting loop that breaks at the first stone
  failing the test is \<open>takeWhile\<close>.
\<close>

definition scoreEnd :: "StoneState list \<Rightarrow> TargetEnd \<Rightarrow> ScoreResult" where
  "scoreEnd sts tEnd =
     (let inPlayL = filter inPlay sts in
      if length inPlayL = 0 then \<lparr>red = 0, yellow = 0, winner = None\<rparr>
      else
        let withDist = map (\<lambda>s. (team s, buttonDist tEnd s)) inPlayL;
            sorted = sort_key snd withDist;
            closestTeam = fst (hd sorted);
            otherTeam = (if closestTeam = Red then Yellow else Red);
            closestOther = find (\<lambda>s. fst s = otherTeam) sorted;
            cutoff = map_option snd closestOther;
            score = length (takeWhile (\<lambda>s. fst s = closestTeam \<and> belowCutoff (snd s) cutoff) sorted)
        in \<lparr>red = (if closestTeam = Red then score else 0),
            yellow = (if closestTeam = Yellow then score else 0),
            winner = Some closestTeam\<rparr>)"


subsection \<open>Ice force model (physics/ice-model.ts)\<close>

definition vecLen :: "Vec2 \<Rightarrow> real" where
  "vecLen v = sqrt (xc v * xc v + zc v * zc v)"

text \<open>\<open>Math.pow(speed, -0.5)\<close> is only evaluated for \<open>speed > 0.01\<close>, where it is \<open>powr\<close>.\<close>

definition mu :: "real \<Rightarrow> IceParams \<Rightarrow> bool \<Rightarrow> real" where
  "mu speed icep sweep =
     (let baseMu = (if speed > 0.01 then min (mu0 icep * speed powr (- 0.5)) (muMax icep)
                    else muMax icep)
      in if sweep then baseMu * sweepMuFactor icep else baseMu)"

definition spinDecay :: "real \<Rightarrow> real \<Rightarrow> IceParams \<Rightarrow> real" where
  "spinDecay om speed icep =
     (if \<bar>om\<bar> < 0.001 then 0
      else let speedFactor = 1.0 + 2.0 / (1.0 + speed)
           in - kSpin icep * sgn om * speedFactor * STONE_MASS * GRAVITY)"

record IceForces =
  ax :: real
  az :: real
  alphaOmega :: real

definition computeIceForces :: "StoneState \<Rightarrow> IceParams \<Rightarrow> bool \<Rightarrow> IceForces" where
  "computeIceForces stone icep sweep =
     (let speed = vecLen (vel stone) in
      if speed < 0.0005
      then \<lparr>ax = 0, az = 0, alphaOmega = spinDecay (omega stone) speed icep\<rparr>
      else
        let vHatX = xc (vel stone) / speed;
            vHatZ = zc (vel stone) / speed;
            frictionMu = mu speed icep sweep;
            frictionAccel = frictionMu * GRAVITY;
            ax0 = - frictionAccel * vHatX;
            az0 = - frictionAccel * vHatZ;
            hasSignificantSpin = (\<bar>omega stone\<bar> > 0.05);
            curlC = (if sweep then curlCoeff icep * sweepCurlFactor icep else curlCoeff icep);
            curlMagnitude = curlC * min (1.0 / speed) 8.0;
            spinSign = sgn (omega stone);
            omegaFactor = min (\<bar>omega stone\<bar> / 0.3) 1.0;
            ax1 = (if hasSignificantSpin
                   then ax0 + - spinSign * curlMagnitude * omegaFactor * vHatZ else ax0);
            az1 = (if hasSignificantSpin
                   then az0 + - spinSign * curlMagnitude * omegaFactor * (- vHatX) else az0)
        in \<lparr>ax = ax1, az = az1, alphaOmega = spinDecay (omega stone) speed icep\<rparr>)"

subsection \<open>Collision resolver (physics/collisions.ts)\<close>

definition CONTACT_DIST :: real where "CONTACT_DIST = STONE_RADIUS * 2"
definition POSITIONAL_SLOP :: real where "POSITIONAL_SLOP = 0.001"
definition POSITIONAL_CORRECTION_FACTOR :: real where "POSITIONAL_CORRECTION_FACTOR = 0.8"

definition positionalCorrection ::
  "StoneState \<Rightarrow> StoneState \<Rightarrow> real \<Rightarrow> real \<Rightarrow> real \<Rightarrow> StoneState \<times> StoneState" where
  "positionalCorrection a b dst nx nz =
     (let overlap = CONTACT_DIST - dst in
      if overlap \<le> POSITIONAL_SLOP then (a, b)
      else
        let correction = ((overlap - POSITIONAL_SLOP) * POSITIONAL_CORRECTION_FACTOR) / 2
        in (a\<lparr>pos := \<lparr>xc = xc (pos a) - correction * nx, zc = zc (pos a) - correction * nz\<rparr>\<rparr>,
            b\<lparr>pos := \<lparr>xc = xc (pos b) + correction * nx, zc = zc (pos b) + correction * nz\<rparr>\<rparr>))"

text \<open>
  \<open>resolveStoneStone\<close> mutates both stones; the model returns the pair of new stones.
  The spin used for the surface velocities is the spin on entry (it is only changed by the
  last two assignments).
\<close>

definition resolveStoneStone :: "StoneState \<Rightarrow> StoneState \<Rightarrow> StoneState \<times> StoneState" where
  "resolveStoneStone a b =
     (let dx = xc (pos b) - xc (pos a);
          dz = zc (pos b) - zc (pos a);
          dst = sqrt (dx * dx + dz * dz)
      in if dst \<ge> CONTACT_DIST \<or> dst < 0.00000001 then (a, b)
      else
        let nx = dx / dst;
            nz = dz / dst;
            dvx = xc (vel b) - xc (vel a);
            dvz = zc (vel b) - zc (vel a);
            relVelNormal = dvx * nx + dvz * nz
        in if relVelNormal > 0 then positionalCorrection a b dst nx nz
        else
          let e = COLLISION_RESTITUTION;
              jNormal = (- (1 + e) * relVelNormal) / (1 / STONE_MASS + 1 / STONE_MASS);
              avx1 = xc (vel a) - (jNormal / STONE_MASS) * nx;
              avz1 = zc (vel a) - (jNormal / STONE_MASS) * nz;
              bvx1 = xc (vel b) + (jNormal / STONE_MASS) * nx;
              bvz1 = zc (vel b) + (jNormal / STONE_MASS) * nz;
              tx = - nz;
              tz = nx;
              relVelTangent = dvx * tx + dvz * tz;
              surfaceVelA = omega a * STONE_RADIUS;
              surfaceVelB = - omega b * STONE_RADIUS;
              totalTangentVel = relVelTangent + surfaceVelA + surfaceVelB;
              jTangentMax = \<bar>jNormal\<bar> * COLLISION_TANGENTIAL_FRICTION;
              jTangent = max (- jTangentMax) (min jTangentMax (- totalTangentVel * STONE_MASS * 0.5));
              avx2 = avx1 - (jTangent / STONE_MASS) * tx;
              avz2 = avz1 - (jTangent / STONE_MASS) * tz;
              bvx2 = bvx1 + (jTangent / STONE_MASS) * tx;
              bvz2 = bvz1 + (jTangent / STONE_MASS) * tz;
              I = 0.5 * STONE_MASS * STONE_RADIUS * STONE_RADIUS;
              a' = a\<lparr>vel := \<lparr>xc = avx2, zc = avz2\<rparr>, omega := omega a + (jTangent * STONE_RADIUS) / I\<rparr>;
              b' = b\<lparr>vel := \<lparr>xc = bvx2, zc = bvz2\<rparr>, omega := omega b - (jTangent * STONE_RADIUS) / I\<rparr>
          in positionalCorrection a' b' dst nx nz)"

definition resolveWall :: "StoneState \<Rightarrow> real \<Rightarrow> StoneState" where
  "resolveWall s halfWidth =
     (if xc (pos s) - STONE_RADIUS < - halfWidth \<or> xc (pos s) + STONE_RADIUS > halfWidth
      then s\<lparr>inPlay := False\<rparr> else s)"

text \<open>
  \<open>active\<close> holds references to the in-play stones of the array, so a stone changed through
  \<open>active[i]\<close> is changed in the array. The model keeps the array and works with the list
  of the indices of the in-play stones, in array order.
\<close>

definition activeIndices :: "StoneState list \<Rightarrow> nat list" where
  "activeIndices sts = filter (\<lambda>i. inPlay (sts ! i)) [0..<length sts]"

text \<open>The inner loop: the stone at index \<open>i\<close> against each later active stone, in order.\<close>

fun resolvePairsFrom :: "nat \<Rightarrow> nat list \<Rightarrow> StoneState list \<Rightarrow> StoneState list" where
  "resolvePairsFrom i [] sts = sts"
| "resolvePairsFrom i (j # js) sts =
     resolvePairsFrom i js
       (case resolveStoneStone (sts ! i) (sts ! j) of (a', b') \<Rightarrow> sts[i := a', j := b'])"

text \<open>The outer loop over the active stones.\<close>

fun resolvePairs :: "nat list \<Rightarrow> StoneState list \<Rightarrow> StoneState list" where
  "resolvePairs [] sts = sts"
| "resolvePairs (i # js) sts = resolvePairs js (resolvePairsFrom i js sts)"

fun resolveWalls :: "nat list \<Rightarrow> real \<Rightarrow> StoneState list \<Rightarrow> StoneState list" where
  "resolveWalls [] halfW sts = sts"
| "resolveWalls (i # js) halfW sts = resolveWalls js halfW (sts[i := resolveWall (sts ! i) halfW])"

definition resolveCollisions :: "StoneState list \<Rightarrow> StoneState list" where
  "resolveCollisions sts =
     (let active = activeIndices sts;
          halfW = SHEET_WIDTH / 2
      in resolveWalls active halfW (resolvePairs active sts))"

subsection \<open>Integrator (physics/integrator.ts)\<close>

text \<open>The body of the integration loop of \<open>stepPhysics\<close> for one stone.\<close>

definition integrateStone :: "IceParams \<Rightarrow> bool \<Rightarrow> StoneState \<Rightarrow> StoneState" where
  "integrateStone icep sweep s =
     (let dt = PHYSICS_DT in
      if \<not> inPlay s then s
      else
        let speed = sqrt (xc (vel s) * xc (vel s) + zc (vel s) * zc (vel s)) in
        if speed < SETTLE_VEL_THRESHOLD \<and> \<bar>omega s\<bar> < SETTLE_OMEGA_THRESHOLD
        then s\<lparr>vel := \<lparr>xc = 0, zc = 0\<rparr>, omega := 0\<rparr>
        else
          let f = computeIceForces s icep sweep;
              vx1 = xc (vel s) + ax f * dt;
              vz1 = zc (vel s) + az f * dt;
              om1 = omega s + alphaOmega f * dt;
              newSpeed = sqrt (vx1 * vx1 + vz1 * vz1);
              over = (speed > SETTLE_VEL_THRESHOLD \<and> newSpeed > speed * 1.5);
              vx2 = (if over then 0 else vx1);
              vz2 = (if over then 0 else vz1);
              dot = vx2 * (vx2 - ax f * dt) + vz2 * (vz2 - az f * dt);
              rev = (speed > SETTLE_VEL_THRESHOLD \<and> dot < 0);
              vx3 = (if rev then 0 else vx2);
              vz3 = (if rev then 0 else vz2);
              om2 = (if om1 \<noteq> 0 \<and> \<bar>om1\<bar> < SETTLE_OMEGA_THRESHOLD then 0 else om1)
          in s\<lparr>pos := \<lparr>xc = xc (pos s) + vx3 * dt, zc = zc (pos s) + vz3 * dt\<rparr>,
               vel := \<lparr>xc = vx3, zc = vz3\<rparr>,
               omega := om2,
               angle := angle s + om1 * dt\<rparr>)"

definition stepPhysics :: "StoneState list \<Rightarrow> IceParams \<Rightarrow> bool \<Rightarrow> StoneState list" where
  "stepPhysics sts icep sweep = resolveCollisions (map (integrateStone icep sweep) sts)"

definition allSettled :: "StoneState list \<Rightarrow> bool" where
  "allSettled sts =
     list_all (\<lambda>s. \<not> inPlay s \<or>
        \<not> (sqrt (xc (vel s) * xc (vel s) + zc (vel s) * zc (vel s)) > SETTLE_VEL_THRESHOLD
           \<or> \<bar>omega s\<bar> > SETTLE_OMEGA_THRESHOLD)) sts"

subsection \<open>Simulation world (physics/world.ts)\<close>

record PhysicsWorld =
  stones :: "StoneState list"
  ice :: IceParams
  sweeping :: bool
  targetEnd :: TargetEnd
  deliveredStoneIndex :: int
  accumulator :: real

definition newPhysicsWorld :: "IceParams \<Rightarrow> PhysicsWorld" where
  "newPhysicsWorld icep =
     \<lparr>stones = [], ice = icep, sweeping = False, targetEnd = TowardNegZ,
      deliveredStoneIndex = - 1, accumulator = 0\<rparr>"

definition isSimulating :: "PhysicsWorld \<Rightarrow> bool" where
  "isSimulating w =
     list_ex (\<lambda>s. inPlay s \<and>
        (\<bar>xc (vel s)\<bar> > 0.001 \<or> \<bar>zc (vel s)\<bar> > 0.001 \<or> \<bar>omega s\<bar> > 0.01)) (stones w)"

definition resetEnd :: "PhysicsWorld \<Rightarrow> PhysicsWorld" where
  "resetEnd w = w\<lparr>stones := [], deliveredStoneIndex := - 1, accumulator := 0\<rparr>"

definition deliverStone :: "PhysicsWorld \<Rightarrow> Team \<Rightarrow> ShotRelease \<Rightarrow> nat \<Rightarrow> PhysicsWorld" where
  "deliverStone w tm release dIndex =
     (let hackZ = (if targetEnd w = TowardNegZ then HACK_Z else - HACK_Z);
          stone = \<lparr>pos = \<lparr>xc = rel_x release, zc = hackZ\<rparr>,
                   vel = \<lparr>xc = - te_val (targetEnd w) * sin (rel_angle release) * rel_speed release,
                          zc = te_val (targetEnd w) * cos (rel_angle release) * rel_speed release\<rparr>,
                   omega = rel_omega release,
                   angle = 0,
                   team = tm,
                   inPlay = True,
                   deliveryIndex = dIndex\<rparr>;
          stones' = stones w @ [stone]
      in w\<lparr>stones := stones', deliveredStoneIndex := int (length stones') - 1\<rparr>)"

text \<open>One pass of the body of the sub-step loop of \<open>update\<close>.\<close>

definition subStep :: "PhysicsWorld \<Rightarrow> PhysicsWorld" where
  "subStep w =
     w\<lparr>stones := applyRules (stepPhysics (stones w) (ice w) (sweeping w))
                   (deliveredStoneIndex w) (targetEnd w),
       accumulator := accumulator w - PHYSICS_DT\<rparr>"

function updateLoop :: "PhysicsWorld \<Rightarrow> PhysicsWorld" where
  "updateLoop w = (if accumulator w \<ge> PHYSICS_DT then updateLoop (subStep w) else w)"
  by pat_completeness auto
termination
proof (relation "measure (\<lambda>w. nat \<lfloor>accumulator w * 120\<rfloor>)")
  show "wf (measure (\<lambda>w. nat \<lfloor>accumulator w * 120\<rfloor>))" by simp
next
  fix w :: PhysicsWorld
  assume a: "PHYSICS_DT \<le> accumulator w"
  have "accumulator (subStep w) * 120 = accumulator w * 120 - 1"
    by (simp add: subStep_def PHYSICS_DT_def algebra_simps)
  then have "\<lfloor>accumulator (subStep w) * 120\<rfloor> = \<lfloor>accumulator w * 120\<rfloor> - 1"
    by simp
  moreover from a have "1 \<le> \<lfloor>accumulator w * 120\<rfloor>"
    by (simp add: PHYSICS_DT_def le_floor_iff)
  ultimately show "(subStep w, w) \<in> measure (\<lambda>w. nat \<lfloor>accumulator w * 120\<rfloor>)"
    by simp
qed

declare updateLoop.simps [simp del]

text \<open>
  The hog-line check of \<open>update\<close> on the delivered stone, done when no stone is moving.
  \<open>this.stones[i]\<close> is \<open>undefined\<close> out of range, which the test \<open>delivered && ...\<close> skips.
\<close>

definition hogLineCheck :: "PhysicsWorld \<Rightarrow> PhysicsWorld" where
  "hogLineCheck w =
     (if deliveredStoneIndex w \<ge> 0 \<and> nat (deliveredStoneIndex w) < length (stones w)
      then
        let delivered = stones w ! nat (deliveredStoneIndex w) in
        if inPlay delivered \<and> checkHogLineViolation delivered (targetEnd w)
        then w\<lparr>stones := (stones w)[nat (deliveredStoneIndex w) := delivered\<lparr>inPlay := False\<rparr>]\<rparr>
        else w
      else w)"

definition capAccumulator :: "PhysicsWorld \<Rightarrow> real \<Rightarrow> PhysicsWorld" where
  "capAccumulator w elapsedSec =
     (let w1 = w\<lparr>accumulator := accumulator w + elapsedSec\<rparr>
      in if accumulator w1 > 0.2 then w1\<lparr>accumulator := 0.2\<rparr> else w1)"

text \<open>\<open>update\<close> returns the new world and the flag "still simulating".\<close>

definition update :: "PhysicsWorld \<Rightarrow> real \<Rightarrow> PhysicsWorld \<times> bool" where
  "update w elapsedSec =
     (let w1 = updateLoop (capAccumulator w elapsedSec) in
      if \<not> isSimulating w1
      then ((hogLineCheck w1)\<lparr>deliveredStoneIndex := - 1\<rparr>, False)
      else (w1, True))"

definition score :: "PhysicsWorld \<Rightarrow> ScoreResult" where
  "score w = scoreEnd (stones w) (targetEnd w)"

subsection \<open>Game controller (game/game-controller.ts)\<close>

datatype GamePhase = AIMING | DELIVERING | SETTLING | END_SCORE | GAME_OVER

definition STONES_PER_TEAM :: nat where "STONES_PER_TEAM = 8"
definition ENDS_PER_GAME :: nat where "ENDS_PER_GAME = 2"
definition SCORE_DISPLAY_DURATION :: real where "SCORE_DISPLAY_DURATION = 3.0"

record GameController =
  phase :: GamePhase
  world :: PhysicsWorld
  scoreHistory :: "Score list"
  totalScore :: Score
  currentEnd :: nat
  hammerTeam :: Team
  deliveryCount :: nat
  scoreDisplayTimer :: real

definition newGameController :: GameController where
  "newGameController =
     \<lparr>phase = AIMING, world = newPhysicsWorld DEFAULT_ICE_PARAMS, scoreHistory = [],
      totalScore = \<lparr>red = 0, yellow = 0\<rparr>, currentEnd = 1, hammerTeam = Yellow,
      deliveryCount = 0, scoreDisplayTimer = 0\<rparr>"

definition currentTeam :: "GameController \<Rightarrow> Team" where
  "currentTeam c =
     (let firstTeam = (if hammerTeam c = Red then Yellow else Red)
      in if deliveryCount c mod 2 = 0 then firstTeam else hammerTeam c)"

definition throwStone :: "GameController \<Rightarrow> ShotRelease \<Rightarrow> GameController" where
  "throwStone c release =
     (if phase c \<noteq> AIMING then c
      else c\<lparr>world := deliverStone (world c) (currentTeam c) release (deliveryCount c),
             deliveryCount := deliveryCount c + 1,
             phase := DELIVERING\<rparr>)"

definition endEnd :: "GameController \<Rightarrow> GameController" where
  "endEnd c =
     (let result = score (world c);
          c1 = c\<lparr>scoreHistory := scoreHistory c @ [\<lparr>red = red result, yellow = yellow result\<rparr>],
                 totalScore := \<lparr>red = red (totalScore c) + red result,
                                yellow = yellow (totalScore c) + yellow result\<rparr>\<rparr>;
          c2 = (case winner result of
                  None \<Rightarrow> c1
                | Some t \<Rightarrow> c1\<lparr>hammerTeam := (if t = Red then Yellow else Red)\<rparr>)
      in if currentEnd c2 \<ge> ENDS_PER_GAME then c2\<lparr>phase := GAME_OVER\<rparr>
         else c2\<lparr>phase := END_SCORE, scoreDisplayTimer := 0\<rparr>)"

definition startNextEnd :: "GameController \<Rightarrow> GameController" where
  "startNextEnd c =
     c\<lparr>currentEnd := currentEnd c + 1,
       deliveryCount := 0,
       world := (resetEnd (world c))
                  \<lparr>targetEnd := (if targetEnd (world c) = TowardNegZ then TowardPosZ
                                  else TowardNegZ)\<rparr>,
       phase := AIMING\<rparr>"

text \<open>\<open>GameController.update\<close>, called every frame with the elapsed time.\<close>

definition controllerUpdate :: "GameController \<Rightarrow> real \<Rightarrow> GameController" where
  "controllerUpdate c dt =
     (if phase c = DELIVERING \<or> phase c = SETTLING then
        (case update (world c) dt of
           (w', stillMoving) \<Rightarrow>
             let c1 = c\<lparr>world := w'\<rparr> in
             if stillMoving then c1\<lparr>phase := DELIVERING\<rparr>
             else if deliveryCount c1 \<ge> STONES_PER_TEAM * 2 then endEnd c1
             else c1\<lparr>phase := AIMING\<rparr>)
      else if phase c = END_SCORE then
        (let c1 = c\<lparr>scoreDisplayTimer := scoreDisplayTimer c + dt\<rparr>
         in if scoreDisplayTimer c1 \<ge> SCORE_DISPLAY_DURATION then startNextEnd c1 else c1)
      else c)"


subsection \<open>Headless driver (physics/headless.ts)\<close>

text \<open>
  \<open>HeadlessGame\<close> holds one \<open>GameController\<close> and nothing else, so a headless game is
  modelled by its controller.
\<close>

record BoardStone =
  bs_pos :: Vec2
  bs_team :: Team
  bs_inPlay :: bool
  bs_deliveryIndex :: nat

record BoardState =
  bs_stones :: "BoardStone list"
  bs_currentTeam :: Team
  bs_score :: Score
  bs_currentEnd :: nat
  bs_deliveryCount :: nat

record ThrowResult =
  steps :: nat
  finalState :: BoardState
  tr_score :: "ScoreResult option"

definition getState :: "GameController \<Rightarrow> BoardState" where
  "getState c =
     \<lparr>bs_stones = map (\<lambda>s. \<lparr>bs_pos = \<lparr>xc = xc (pos s), zc = zc (pos s)\<rparr>, bs_team = team s,
                               bs_inPlay = inPlay s, bs_deliveryIndex = deliveryIndex s\<rparr>)
                      (stones (world c)),
      bs_currentTeam = currentTeam c,
      bs_score = totalScore c,
      bs_currentEnd = currentEnd c,
      bs_deliveryCount = deliveryCount c\<rparr>"

text \<open>The number of passes of the sub-step loop of \<open>update\<close> for an accumulator value.\<close>

definition subStepCount :: "real \<Rightarrow> nat" where
  "subStepCount acc = nat \<lfloor>acc / PHYSICS_DT\<rfloor>"

text \<open>
  Modelled from the spec: \<open>PhysicsWorld.runUntilSettled\<close>, which \<open>throwAndSettle\<close> calls, is
  not among the sources of \<open>world.ts\<close>. The specification (section 4.6) says that after the
  delivery the driver "repeatedly advances the World by a fixed large-enough step until no
  stone is moving"; the source says that it returns "the number of physics steps taken".
  The model advances the world with \<open>update\<close> by the fixed step \<open>bigStep\<close> until \<open>update\<close>
  reports that no stone is moving, and counts the sub-steps that \<open>update\<close> made. A run that
  never reaches quiescence has the value \<open>None\<close>.
\<close>

partial_function (option) runUntilSettled ::
  "real \<Rightarrow> PhysicsWorld \<Rightarrow> nat \<Rightarrow> (PhysicsWorld \<times> nat) option" where
  "runUntilSettled bigStep w n =
     (case update w bigStep of
        (w', stillMoving) \<Rightarrow>
          let n' = n + subStepCount (accumulator (capAccumulator w bigStep)) in
          if stillMoving then runUntilSettled bigStep w' n' else Some (w', n'))"

text \<open>The error thrown by \<open>throwAndSettle\<close>: "Cannot throw stone in phase: ...".\<close>

datatype error = CannotThrowInPhase GamePhase

text \<open>
  \<open>throwAndSettle\<close> returns the new controller and either the error thrown or the
  \<open>ThrowResult\<close>; \<open>None\<close> stands for a call that does not return.
\<close>

definition throwAndSettle ::
  "real \<Rightarrow> GameController \<Rightarrow> ShotRelease \<Rightarrow> (GameController \<times> (error + ThrowResult)) option" where
  "throwAndSettle bigStep c release =
     (if phase c \<noteq> AIMING then Some (c, Inl (CannotThrowInPhase (phase c)))
      else
        let c1 = throwStone c release in
        case runUntilSettled bigStep (world c1) 0 of
          None \<Rightarrow> None
        | Some (w', nsteps) \<Rightarrow>
            let c2 = c1\<lparr>world := w'\<rparr>;
                c3 = (if \<not> isSimulating (world c2) then
                        (if deliveryCount c2 \<ge> 16 then
                           (let result = score (world c2);
                                c4 = c2\<lparr>scoreHistory := scoreHistory c2
                                          @ [\<lparr>red = red result, yellow = yellow result\<rparr>],
                                        totalScore := \<lparr>red = red (totalScore c2) + red result,
                                                       yellow = yellow (totalScore c2) + yellow result\<rparr>\<rparr>;
                                c5 = (case winner result of
                                        None \<Rightarrow> c4
                                      | Some t \<Rightarrow> c4\<lparr>hammerTeam := (if t = Red then Yellow else Red)\<rparr>)
                            in if currentEnd c5 \<ge> 2 then c5\<lparr>phase := GAME_OVER\<rparr>
                               else c5\<lparr>phase := END_SCORE\<rparr>)
                         else c2\<lparr>phase := AIMING\<rparr>)
                      else c2);
                result = \<lparr>steps = nsteps, finalState = getState c3,
                          tr_score = (if phase c3 = END_SCORE \<or> phase c3 = GAME_OVER
                                      then Some (score (world c3)) else None)\<rparr>
            in Some (c3, Inr result))"

subsection \<open>Notions used to state the properties\<close>

definition opponent :: "Team \<Rightarrow> Team" where
  "opponent t = (if t = Red then Yellow else Red)"

text \<open>The points of a team in a score.\<close>

definition teamScore :: "ScoreResult \<Rightarrow> Team \<Rightarrow> nat" where
  "teamScore r t = (case t of Red \<Rightarrow> red r | Yellow \<Rightarrow> yellow r)"

text \<open>A stone at rest at a position, for concrete examples.\<close>

definition mkStone :: "real \<Rightarrow> real \<Rightarrow> Team \<Rightarrow> bool \<Rightarrow> nat \<Rightarrow> StoneState" where
  "mkStone px pz t ip i =
     \<lparr>pos = \<lparr>xc = px, zc = pz\<rparr>, vel = \<lparr>xc = 0, zc = 0\<rparr>, omega = 0, angle = 0,
      team = t, inPlay = ip, deliveryIndex = i\<rparr>"

text \<open>\<open>new\<close> keeps every stone of \<open>old\<close> at its index, and none that was out of play is in play.\<close>

definition inPlayMonotone :: "StoneState list \<Rightarrow> StoneState list \<Rightarrow> bool" where
  "inPlayMonotone old new \<longleftrightarrow>
     length old \<le> length new \<and> (\<forall>k<length old. \<not> inPlay (old ! k) \<longrightarrow> \<not> inPlay (new ! k))"

text \<open>The edge of the stone is across a side boundary of the sheet (the test of \<open>resolveWall\<close>).\<close>

definition beyondSideBoundary :: "StoneState \<Rightarrow> bool" where
  "beyondSideBoundary s \<longleftrightarrow>
     xc (pos s) - STONE_RADIUS < - (SHEET_WIDTH / 2) \<or> xc (pos s) + STONE_RADIUS > SHEET_WIDTH / 2"

text \<open>A stone in play sliding toward the right-hand board at 1 m/s, 7 mm short of touching it.\<close>

definition stoneNearBoard :: StoneState where
  "stoneNearBoard =
     \<lparr>pos = \<lparr>xc = 2.21, zc = 0\<rparr>, vel = \<lparr>xc = 1, zc = 0\<rparr>, omega = 0, angle = 0,
      team = Red, inPlay = True, deliveryIndex = 0\<rparr>"

text \<open>A stone out of play that still carries velocity and spin (removed while moving).\<close>

definition stoneRemoved :: StoneState where
  "stoneRemoved =
     \<lparr>pos = \<lparr>xc = 2.3, zc = 0.1\<rparr>, vel = \<lparr>xc = 1, zc = 0.5\<rparr>, omega = 2, angle = 0.3,
      team = Yellow, inPlay = False, deliveryIndex = 1\<rparr>"

text \<open>The distance between the centres of two stones, as \<open>resolveStoneStone\<close> computes it.\<close>

definition centreDist :: "StoneState \<Rightarrow> StoneState \<Rightarrow> real" where
  "centreDist a b =
     sqrt ((xc (pos b) - xc (pos a)) * (xc (pos b) - xc (pos a))
         + (zc (pos b) - zc (pos a)) * (zc (pos b) - zc (pos a)))"

text \<open>
  Two stones are in contact for the resolver when it does not return at its first test:
  closer than the sum of the radii and centres at least the numerical epsilon apart.
\<close>

definition inContact :: "StoneState \<Rightarrow> StoneState \<Rightarrow> bool" where
  "inContact a b \<longleftrightarrow> \<not> (centreDist a b \<ge> CONTACT_DIST \<or> centreDist a b < 0.00000001)"

text \<open>The unit vector from the centre of \<open>a\<close> to the centre of \<open>b\<close> (the line of centres).\<close>

definition centreNormal :: "StoneState \<Rightarrow> StoneState \<Rightarrow> Vec2" where
  "centreNormal a b =
     \<lparr>xc = (xc (pos b) - xc (pos a)) / centreDist a b,
      zc = (zc (pos b) - zc (pos a)) / centreDist a b\<rparr>"

definition scaleVec :: "real \<Rightarrow> Vec2 \<Rightarrow> Vec2" where
  "scaleVec k u = \<lparr>xc = k * xc u, zc = k * zc u\<rparr>"

text \<open>
  The stones approach head-on along the line of centres with equal and opposite velocities
  of magnitude \<open>v\<close>: \<open>a\<close> moves toward \<open>b\<close> and \<open>b\<close> toward \<open>a\<close>.
\<close>

definition headOn :: "StoneState \<Rightarrow> StoneState \<Rightarrow> real \<Rightarrow> bool" where
  "headOn a b v \<longleftrightarrow>
     0 \<le> v \<and> vel a = scaleVec v (centreNormal a b) \<and> vel b = scaleVec (- v) (centreNormal a b)"

text \<open>Two overlapping stones on the centre line, closing at 1 m/s each.\<close>

definition stoneA :: StoneState where
  "stoneA =
     \<lparr>pos = \<lparr>xc = 0, zc = 0\<rparr>, vel = \<lparr>xc = 0, zc = 1\<rparr>, omega = 0, angle = 0,
      team = Red, inPlay = True, deliveryIndex = 0\<rparr>"

definition stoneB :: StoneState where
  "stoneB =
     \<lparr>pos = \<lparr>xc = 0, zc = 0.28\<rparr>, vel = \<lparr>xc = 0, zc = - 1\<rparr>, omega = 0, angle = 0,
      team = Yellow, inPlay = True, deliveryIndex = 1\<rparr>"

text \<open>
  The leading edge of the stone (the edge nearest the target house) is across the far hog
  line: the condition of the specification for the stone to stay in play.
\<close>

definition leadingEdgeCrossedHogLine :: "StoneState \<Rightarrow> TargetEnd \<Rightarrow> bool" where
  "leadingEdgeCrossedHogLine s tEnd \<longleftrightarrow>
     (if tEnd = TowardNegZ then zc (pos s) - STONE_RADIUS < - HOG_Z
      else zc (pos s) + STONE_RADIUS > HOG_Z)"

text \<open>
  The whole stone is across the far hog line: its trailing edge (the edge nearest the
  hack it came from) has reached the line.
\<close>

definition fullyCrossedHogLine :: "StoneState \<Rightarrow> TargetEnd \<Rightarrow> bool" where
  "fullyCrossedHogLine s tEnd \<longleftrightarrow>
     (if tEnd = TowardNegZ then zc (pos s) + STONE_RADIUS \<le> - HOG_Z
      else zc (pos s) - STONE_RADIUS \<ge> HOG_Z)"

text \<open>
  A world played toward the negative-Z house whose delivered stone has come to rest with
  its centre exactly on the far hog line, and the same world with the stone resting one
  metre beyond the line.
\<close>

definition hogWorld :: "real \<Rightarrow> PhysicsWorld" where
  "hogWorld pz =
     \<lparr>stones = [mkStone 0 pz Red True 0], ice = DEFAULT_ICE_PARAMS, sweeping = False,
      targetEnd = TowardNegZ, deliveredStoneIndex = 0, accumulator = 0\<rparr>"

text \<open>The settle test of the integrator: speed and spin below both thresholds.\<close>

definition belowSettleThresholds :: "StoneState \<Rightarrow> bool" where
  "belowSettleThresholds s \<longleftrightarrow>
     sqrt (xc (vel s) * xc (vel s) + zc (vel s) * zc (vel s)) < SETTLE_VEL_THRESHOLD
     \<and> \<bar>omega s\<bar> < SETTLE_OMEGA_THRESHOLD"

text \<open>No two stones in play are in contact, so the collision stage applies no impulse.\<close>

definition noContact :: "StoneState list \<Rightarrow> bool" where
  "noContact sts \<longleftrightarrow>
     (\<forall>i<length sts. \<forall>j<length sts.
        inPlay (sts ! i) \<and> inPlay (sts ! j) \<longrightarrow> \<not> inContact (sts ! i) (sts ! j))"

text \<open>A stone at rest in play at the origin of the sheet.\<close>

definition stoneAtRest :: StoneState where
  "stoneAtRest = mkStone 0 0 Red True 0"

text \<open>A stone in play creeping at 1 mm/s with a residual spin of 0.005 rad/s.\<close>

definition stoneCreeping :: StoneState where
  "stoneCreeping =
     \<lparr>pos = \<lparr>xc = 0.5, zc = 1\<rparr>, vel = \<lparr>xc = 0.001, zc = 0\<rparr>, omega = 0.005, angle = 0.2,
      team = Yellow, inPlay = True, deliveryIndex = 3\<rparr>"

text \<open>The world after \<open>n\<close> calls of \<open>update\<close> with the step \<open>bigStep\<close>.\<close>

definition advanceWorld :: "real \<Rightarrow> nat \<Rightarrow> PhysicsWorld \<Rightarrow> PhysicsWorld" where
  "advanceWorld bigStep n w = ((\<lambda>v. fst (update v bigStep)) ^^ n) w"

text \<open>Some call of \<open>update\<close> in the sequence reports that no stone is moving.\<close>

definition reachesQuiescence :: "real \<Rightarrow> PhysicsWorld \<Rightarrow> bool" where
  "reachesQuiescence bigStep w \<longleftrightarrow> (\<exists>n. \<not> snd (update (advanceWorld bigStep n w) bigStep))"

text \<open>
  No stone in play moves by the test of \<open>isSimulating\<close>: velocity components within
  0.001 m/s and spin within 0.01 rad/s of zero.
\<close>

definition withinMotionThresholds :: "PhysicsWorld \<Rightarrow> bool" where
  "withinMotionThresholds w \<longleftrightarrow>
     (\<forall>s\<in>set (stones w). inPlay s \<longrightarrow>
        \<bar>xc (vel s)\<bar> \<le> 0.001 \<and> \<bar>zc (vel s)\<bar> \<le> 0.001 \<and> \<bar>omega s\<bar> \<le> 0.01)"

text \<open>
  A new headless game built with the ice override \<open>{ kSpin: 0 }\<close> (no spin decay), and the
  release of a stone that is set spinning at 1 rad/s with no forward speed.
\<close>

definition noSpinDecayGame :: GameController where
  "noSpinDecayGame =
     newGameController\<lparr>world := newPhysicsWorld (DEFAULT_ICE_PARAMS\<lparr>kSpin := 0\<rparr>)\<rparr>"

definition spinOnlyRelease :: ShotRelease where
  "spinOnlyRelease = \<lparr>rel_x = 0, rel_z = 0, rel_speed = 0, rel_angle = 0, rel_omega = 1\<rparr>"

text \<open>
  The world of a stone that spins in place at the hack on ice without spin decay: only its
  orientation angle changes from step to step.
\<close>

definition spinningAtHack :: "PhysicsWorld \<Rightarrow> bool" where
  "spinningAtHack w \<longleftrightarrow>
     kSpin (ice w) = 0 \<and> targetEnd w = TowardNegZ
     \<and> (\<exists>a. stones w =
           [\<lparr>pos = \<lparr>xc = 0, zc = HACK_Z\<rparr>, vel = \<lparr>xc = 0, zc = 0\<rparr>, omega = 1, angle = a,
             team = Red, inPlay = True, deliveryIndex = 0\<rparr>])"

text \<open>
  Ice on which a lone stone comes to rest. Spin decay and friction are present, and sweeping
  scales the friction by a factor in \<open>(0, 1]\<close>. The largest spin decay of one step (three
  times the decay at high speed) is at most the spin threshold, so that the spin cannot jump
  over the band around zero that the integrator clamps, and the largest friction loss of one
  step is less than twice the velocity threshold, for the same reason. The default
  parameters are in this range.
\<close>

definition settlingIce :: "IceParams \<Rightarrow> bool" where
  "settlingIce icep \<longleftrightarrow>
     0 < kSpin icep
     \<and> 3 * (kSpin icep * STONE_MASS * GRAVITY * PHYSICS_DT) \<le> SETTLE_OMEGA_THRESHOLD
     \<and> 0 < mu0 icep \<and> 0 < muMax icep
     \<and> 0 < sweepMuFactor icep \<and> sweepMuFactor icep \<le> 1
     \<and> muMax icep * GRAVITY * PHYSICS_DT < 2 * SETTLE_VEL_THRESHOLD"

text \<open>
  What one sub-step of the world does to a stone that no other stone in play can touch:
  integration, the wall test, the out-of-play rules.
\<close>

definition stoneStep :: "IceParams \<Rightarrow> bool \<Rightarrow> TargetEnd \<Rightarrow> StoneState \<Rightarrow> StoneState" where
  "stoneStep icep sweep tEnd s =
     applyRulesStone tEnd (resolveWall (integrateStone icep sweep s) (SHEET_WIDTH / 2))"

text \<open>The stone is out of play, or in play with velocity and spin exactly zero.\<close>

definition atRestOrOut :: "StoneState \<Rightarrow> bool" where
  "atRestOrOut s \<longleftrightarrow> \<not> inPlay s \<or> (vel s = \<lparr>xc = 0, zc = 0\<rparr> \<and> omega s = 0)"

text \<open>The speed of a stone, as the integrator computes it.\<close>

definition speedOf :: "StoneState \<Rightarrow> real" where
  "speedOf s = sqrt (xc (vel s) * xc (vel s) + zc (vel s) * zc (vel s))"

text \<open>No stone of the world is in play (an empty sheet, or only removed stones).\<close>

definition noStoneInPlay :: "PhysicsWorld \<Rightarrow> bool" where
  "noStoneInPlay w \<longleftrightarrow> (\<forall>s\<in>set (stones w). \<not> inPlay s)"

text \<open>The stone at index \<open>k\<close> is the only one of the list that may be in play.\<close>

definition othersOut :: "nat \<Rightarrow> StoneState list \<Rightarrow> bool" where
  "othersOut k sts \<longleftrightarrow> k < length sts \<and> (\<forall>i<length sts. i \<noteq> k \<longrightarrow> \<not> inPlay (sts ! i))"

text \<open>
  Two worlds with the same stones, ice, sweeping flag and target end; they may differ in
  the accumulator and in the index of the delivered stone, which a sub-step does not read.
\<close>

definition sameSheet :: "PhysicsWorld \<Rightarrow> PhysicsWorld \<Rightarrow> bool" where
  "sameSheet v w \<longleftrightarrow>
     stones v = stones w \<and> ice v = ice w \<and> sweeping v = sweeping w \<and> targetEnd v = targetEnd w"

text \<open>
  A new headless game built with the ice override \<open>{ mu0: 1 }\<close>, under which the friction
  coefficient is \<open>muMax\<close> at every speed up to 7 m/s, and the release of a stone straight
  down the centre line at 6.4751 m/s without spin.
\<close>

definition slideIce :: IceParams where
  "slideIce = DEFAULT_ICE_PARAMS\<lparr>mu0 := 1\<rparr>"

definition slideGame :: GameController where
  "slideGame = newGameController\<lparr>world := newPhysicsWorld slideIce\<rparr>"

definition slideRelease :: ShotRelease where
  "slideRelease = \<lparr>rel_x = 0, rel_z = 0, rel_speed = 6.4751, rel_angle = 0, rel_omega = 0\<rparr>"

text \<open>
  That stone after \<open>k\<close> sub-steps: each sub-step takes 0.004905 m/s off its speed and
  moves it by the new velocity times the timestep.
\<close>

definition slideStone :: "nat \<Rightarrow> StoneState" where
  "slideStone k =
     \<lparr>pos = \<lparr>xc = 0,
              zc = HACK_Z - (real k * 6.4751 - 0.004905 * (real k * (real k + 1) / 2)) / 120\<rparr>,
      vel = \<lparr>xc = 0, zc = - (6.4751 - real k * 0.004905)\<rparr>,
      omega = 0, angle = 0, team = Red, inPlay = True, deliveryIndex = 0\<rparr>"

definition slideWorld :: "nat \<Rightarrow> PhysicsWorld" where
  "slideWorld k =
     \<lparr>stones = [slideStone k], ice = slideIce, sweeping = False, targetEnd = TowardNegZ,
      deliveredStoneIndex = 0, accumulator = 0\<rparr>"

text \<open>The controller of that game after the update that reports no motion.\<close>

definition slideSettled :: GameController where
  "slideSettled =
     (throwStone slideGame slideRelease)
       \<lparr>world := (slideWorld 1320)\<lparr>deliveredStoneIndex := - 1\<rparr>, phase := AIMING\<rparr>"

text \<open>
  A game on the default ice whose first stone has been removed from play, and the release
  of a draw with an in-turn.
\<close>

definition secondStoneGame :: GameController where
  "secondStoneGame =
     newGameController
       \<lparr>world := (newPhysicsWorld DEFAULT_ICE_PARAMS)\<lparr>stones := [mkStone 0 (- 20) Red False 0]\<rparr>,
        deliveryCount := 1\<rparr>"

definition drawRelease :: ShotRelease where
  "drawRelease = \<lparr>rel_x = 0, rel_z = 0, rel_speed = 2.1, rel_angle = 0.02, rel_omega = 1.5\<rparr>"

text \<open>
  In no sub-step of the run that starts from the world does the collision stage find two
  stones in play in contact (it tests the positions after the integration).
\<close>

definition contactFreeRun :: "PhysicsWorld \<Rightarrow> bool" where
  "contactFreeRun w \<longleftrightarrow>
     (\<forall>m. noContact (map (integrateStone (ice w) (sweeping w)) (stones ((subStep ^^ m) w))))"

text \<open>
  A game on the default ice with a stone of the first delivery at rest in the house, in
  play, and the release of a stone straight down the centre line without spin.
\<close>

definition guardGame :: GameController where
  "guardGame =
     newGameController
       \<lparr>world := (newPhysicsWorld DEFAULT_ICE_PARAMS)\<lparr>stones := [mkStone 1.5 (- 17) Red True 0]\<rparr>,
        deliveryCount := 1\<rparr>"

definition straightRelease :: ShotRelease where
  "straightRelease = \<lparr>rel_x = 0, rel_z = 0, rel_speed = 2.1, rel_angle = 0, rel_omega = 0\<rparr>"

section \<open>Properties\<close>

subsection \<open>Scoring an end\<close>

lemma takeWhile_filter_sorted:
  "sorted (map f xs) \<Longrightarrow> takeWhile (\<lambda>x. f x < (c::real)) xs = filter (\<lambda>x. f x < c) xs"
proof (induction xs)
  case Nil
  then show ?case by simp
next
  case (Cons a xs)
  show ?case
  proof (cases "f a < c")
    case True
    with Cons show ?thesis by simp
  next
    case False
    from Cons.prems have "\<forall>y\<in>set xs. f a \<le> f y" by simp
    with False have "\<forall>y\<in>set xs. \<not> f y < c" by fastforce
    then have "filter (\<lambda>x. f x < c) xs = []" by (simp add: filter_empty_conv)
    with False show ?thesis by simp
  qed
qed

lemma find_sorted_least:
  "sorted (map f xs) \<Longrightarrow> find P xs = Some x \<Longrightarrow> y \<in> set xs \<Longrightarrow> P y \<Longrightarrow> f x \<le> (f y :: real)"
proof (induction xs)
  case Nil
  then show ?case by simp
next
  case (Cons a xs)
  show ?case
  proof (cases "P a")
    case True
    with Cons.prems have "x = a" by simp
    with Cons.prems show ?thesis by auto
  next
    case False
    with Cons show ?thesis by auto
  qed
qed

lemma find_Some_mem: "find P xs = Some x \<Longrightarrow> x \<in> set xs \<and> P x"
  by (induction xs) (auto split: if_splits)

lemma hd_sorted_least:
  "xs \<noteq> [] \<Longrightarrow> sorted (map f xs) \<Longrightarrow> y \<in> set xs \<Longrightarrow> f (hd xs) \<le> (f y :: real)"
  by (cases xs) auto

lemma opponent_neq: "t \<noteq> w \<longleftrightarrow> t = opponent w"
  by (cases t; cases w) (simp_all add: opponent_def)

lemma score_count:
  fixes L :: "(Team \<times> real) list"
  assumes S: "S = sort_key snd L"
    and w: "w = fst (hd S)"
    and cut: "cutoff = map_option snd (find (\<lambda>s. fst s = opponent w) S)"
  shows "length (takeWhile (\<lambda>s. fst s = w \<and> belowCutoff (snd s) cutoff) S)
       = length (filter (\<lambda>e. fst e = w \<and> (\<forall>q\<in>set L. fst q \<noteq> w \<longrightarrow> snd e < snd q)) L)"
proof -
  let ?P = "\<lambda>s. fst s = w \<and> belowCutoff (snd s) cutoff"
  let ?Q = "\<lambda>e. fst e = w \<and> (\<forall>q\<in>set L. fst q \<noteq> w \<longrightarrow> snd e < snd q)"
  have srt: "sorted (map snd S)" by (simp add: S)
  have setS: "set S = set L" by (simp add: S)
  have tf: "takeWhile ?P S = filter ?Q S"
  proof (cases "find (\<lambda>s. fst s = opponent w) S")
    case None
    then have "\<forall>e\<in>set S. fst e \<noteq> opponent w"
      by (auto simp: find_None_iff)
    then have allw: "\<forall>e\<in>set S. fst e = w"
      using opponent_neq by blast
    from None have c: "cutoff = None" by (simp add: cut)
    have "takeWhile ?P S = S"
      using allw by (simp add: c takeWhile_eq_all_conv)
    moreover have "filter ?Q S = S"
      using allw setS by (auto simp: filter_id_conv)
    ultimately show ?thesis by simp
  next
    case (Some x)
    then have c: "cutoff = Some (snd x)" by (simp add: cut)
    from Some have xin: "x \<in> set S" and xo: "fst x = opponent w"
      using find_Some_mem by fastforce+
    have least: "\<And>y. y \<in> set S \<Longrightarrow> fst y = opponent w \<Longrightarrow> snd x \<le> snd y"
      using find_sorted_least [OF srt Some] by blast
    have ltw: "fst e = w" if e: "e \<in> set S" and lt: "snd e < snd x" for e
    proof (rule ccontr)
      assume "fst e \<noteq> w"
      then have "fst e = opponent w" by (simp add: opponent_neq)
      with least [OF e] lt show False by simp
    qed
    have P: "?P e \<longleftrightarrow> snd e < snd x" if e: "e \<in> set S" for e
      using ltw [OF e] by (auto simp: c)
    have Q: "?Q e \<longleftrightarrow> snd e < snd x" if e: "e \<in> set S" for e
    proof
      assume "?Q e"
      with xin xo setS show "snd e < snd x"
        by (metis opponent_neq)
    next
      assume lt: "snd e < snd x"
      have "\<forall>q\<in>set L. fst q \<noteq> w \<longrightarrow> snd e < snd q"
      proof (intro ballI impI)
        fix q assume "q \<in> set L" "fst q \<noteq> w"
        then have "snd x \<le> snd q" using least setS by (simp add: opponent_neq)
        with lt show "snd e < snd q" by simp
      qed
      with ltw [OF e lt] show "?Q e" by simp
    qed
    have "takeWhile ?P S = takeWhile (\<lambda>e. snd e < snd x) S"
      by (rule takeWhile_cong) (simp_all add: P)
    also have "\<dots> = filter (\<lambda>e. snd e < snd x) S"
      by (rule takeWhile_filter_sorted [OF srt])
    also have "\<dots> = filter ?Q S"
      by (rule filter_cong) (simp_all add: Q)
    finally show ?thesis .
  qed
  have "length (filter ?Q S) = length (filter ?Q L)"
    by (simp add: S filter_sort)
  with tf show ?thesis by simp
qed

lemma hd_sort_key_min:
  fixes L :: "(Team \<times> real) list"
  assumes "L \<noteq> []"
  shows "hd (sort_key snd L) \<in> set L \<and> (\<forall>e\<in>set L. snd (hd (sort_key snd L)) \<le> snd e)"
proof -
  let ?S = "sort_key snd L"
  have ne: "?S \<noteq> []" using assms by (metis length_sort length_0_conv)
  have srt: "sorted (map snd ?S)" by simp
  have "hd ?S \<in> set ?S" using ne by (rule hd_in_set)
  then have "hd ?S \<in> set L" by (simp only: set_sort)
  moreover have "\<forall>e\<in>set L. snd (hd ?S) \<le> snd e"
    using hd_sorted_least [OF ne srt] by simp
  ultimately show ?thesis by simp
qed

lemma scoreEnd_nonempty:
  assumes ne: "filter inPlay sts \<noteq> []"
  shows "\<exists>w s. winner (scoreEnd sts te) = Some w \<and> s \<in> set sts \<and> inPlay s \<and> team s = w
     \<and> (\<forall>q\<in>set sts. inPlay q \<longrightarrow> buttonDist te s \<le> buttonDist te q)
     \<and> teamScore (scoreEnd sts te) w
         = length (filter (\<lambda>s. inPlay s \<and> team s = w
              \<and> (\<forall>q\<in>set sts. inPlay q \<and> team q \<noteq> w \<longrightarrow> buttonDist te s < buttonDist te q)) sts)
     \<and> teamScore (scoreEnd sts te) (opponent w) = 0"
proof -
  define ip where "ip = filter inPlay sts"
  define L where "L = map (\<lambda>s. (team s, buttonDist te s)) ip"
  define S where "S = sort_key snd L"
  define w where "w = fst (hd S)"
  define cutoff where "cutoff = map_option snd (find (\<lambda>s. fst s = opponent w) S)"
  define score where "score = length (takeWhile (\<lambda>s. fst s = w \<and> belowCutoff (snd s) cutoff) S)"
  have Lne: "L \<noteq> []" using ne by (simp add: L_def ip_def)
  have res: "scoreEnd sts te =
      \<lparr>red = (if w = Red then score else 0), yellow = (if w = Yellow then score else 0),
       winner = Some w\<rparr>"
    using ne
    unfolding scoreEnd_def Let_def score_def cutoff_def w_def S_def L_def ip_def opponent_def
    by simp
  from hd_sort_key_min [OF Lne]
  have hdin: "hd S \<in> set L" and hdmin: "\<forall>e\<in>set L. snd (hd S) \<le> snd e"
    by (simp_all add: S_def)
  from hdin obtain s where s: "s \<in> set ip" and hs: "hd S = (team s, buttonDist te s)"
    by (auto simp: L_def)
  have s_in: "s \<in> set sts" and s_ip: "inPlay s" using s by (simp_all add: ip_def)
  have s_team: "team s = w" by (simp add: w_def hs)
  have s_min: "\<forall>q\<in>set sts. inPlay q \<longrightarrow> buttonDist te s \<le> buttonDist te q"
  proof (intro ballI impI)
    fix q assume "q \<in> set sts" "inPlay q"
    then have "(team q, buttonDist te q) \<in> set L" by (simp add: L_def ip_def)
    with hdmin hs show "buttonDist te s \<le> buttonDist te q" by fastforce
  qed
  have "score = length (filter (\<lambda>e. fst e = w \<and> (\<forall>q\<in>set L. fst q \<noteq> w \<longrightarrow> snd e < snd q)) L)"
    unfolding score_def by (rule score_count [OF S_def w_def cutoff_def])
  also have "\<dots> = length (filter (\<lambda>s. inPlay s \<and> team s = w
        \<and> (\<forall>q\<in>set sts. inPlay q \<and> team q \<noteq> w \<longrightarrow> buttonDist te s < buttonDist te q)) sts)"
  proof -
    have "filter (\<lambda>e. fst e = w \<and> (\<forall>q\<in>set L. fst q \<noteq> w \<longrightarrow> snd e < snd q)) L
        = map (\<lambda>s. (team s, buttonDist te s)) (filter (\<lambda>s. inPlay s \<and> team s = w
        \<and> (\<forall>q\<in>set sts. inPlay q \<and> team q \<noteq> w \<longrightarrow> buttonDist te s < buttonDist te q)) sts)"
      unfolding L_def ip_def filter_map filter_filter comp_def
      by (rule arg_cong [where f = "map (\<lambda>s. (team s, buttonDist te s))"], rule filter_cong) auto
    then show ?thesis by simp
  qed
  finally have cnt: "score = length (filter (\<lambda>s. inPlay s \<and> team s = w
        \<and> (\<forall>q\<in>set sts. inPlay q \<and> team q \<noteq> w \<longrightarrow> buttonDist te s < buttonDist te q)) sts)" .
  have ts: "teamScore (scoreEnd sts te) w = score"
    by (cases w) (simp_all add: res teamScore_def)
  have to: "teamScore (scoreEnd sts te) (opponent w) = 0"
    by (cases w) (simp_all add: res teamScore_def opponent_def)
  show ?thesis
    using res s_in s_ip s_team s_min cnt ts to by (intro exI [of _ w] exI [of _ s]) simp
qed

lemma scoreEnd_two:
  assumes "team r = Red" "team y = Yellow" "buttonDist te r < buttonDist te y"
    and "filter inPlay sts = [r, y] \<or> filter inPlay sts = [y, r]"
  shows "scoreEnd sts te = \<lparr>red = 1, yellow = 0, winner = Some Red\<rparr>"
  using assms by (auto simp: scoreEnd_def Let_def)

text \<open>
  Claim C3. For every stone list, \<open>scoreEnd\<close> returns as winner the team owning an in-play
  stone closest to the target button; that team's score is the number of its own in-play
  stones strictly closer to the button than every in-play stone of the other team, and the
  other team's score is 0. If no stone is in play the result is 0-0 with no winner. In
  particular, one red stone at distance 0.3 and one yellow stone at distance 0.6, all other
  stones out of play, give red 1, yellow 0, winner red.
\<close>

theorem scoreEnd_spec:
  "(filter inPlay sts = [] \<longrightarrow> scoreEnd sts te = \<lparr>red = 0, yellow = 0, winner = None\<rparr>)
   \<and> (filter inPlay sts \<noteq> [] \<longrightarrow>
        (\<exists>w s. winner (scoreEnd sts te) = Some w \<and> s \<in> set sts \<and> inPlay s \<and> team s = w
          \<and> (\<forall>q\<in>set sts. inPlay q \<longrightarrow> buttonDist te s \<le> buttonDist te q)
          \<and> teamScore (scoreEnd sts te) w
              = length (filter (\<lambda>s. inPlay s \<and> team s = w
                   \<and> (\<forall>q\<in>set sts. inPlay q \<and> team q \<noteq> w
                          \<longrightarrow> buttonDist te s < buttonDist te q)) sts)
          \<and> teamScore (scoreEnd sts te) (opponent w) = 0))
   \<and> (\<forall>r y. team r = Red \<and> team y = Yellow \<and> buttonDist te r = 0.3 \<and> buttonDist te y = 0.6
          \<and> (filter inPlay sts = [r, y] \<or> filter inPlay sts = [y, r])
        \<longrightarrow> scoreEnd sts te = \<lparr>red = 1, yellow = 0, winner = Some Red\<rparr>)"
proof (intro conjI impI allI)
  assume "filter inPlay sts = []"
  then show "scoreEnd sts te = \<lparr>red = 0, yellow = 0, winner = None\<rparr>"
    by (simp add: scoreEnd_def)
next
  assume "filter inPlay sts \<noteq> []"
  then show "\<exists>w s. winner (scoreEnd sts te) = Some w \<and> s \<in> set sts \<and> inPlay s \<and> team s = w
          \<and> (\<forall>q\<in>set sts. inPlay q \<longrightarrow> buttonDist te s \<le> buttonDist te q)
          \<and> teamScore (scoreEnd sts te) w
              = length (filter (\<lambda>s. inPlay s \<and> team s = w
                   \<and> (\<forall>q\<in>set sts. inPlay q \<and> team q \<noteq> w
                          \<longrightarrow> buttonDist te s < buttonDist te q)) sts)
          \<and> teamScore (scoreEnd sts te) (opponent w) = 0"
    by (rule scoreEnd_nonempty)
next
  fix r y
  assume a: "team r = Red \<and> team y = Yellow \<and> buttonDist te r = 0.3 \<and> buttonDist te y = 0.6
          \<and> (filter inPlay sts = [r, y] \<or> filter inPlay sts = [y, r])"
  then have "buttonDist te r < buttonDist te y" by simp
  with a show "scoreEnd sts te = \<lparr>red = 1, yellow = 0, winner = Some Red\<rparr>"
    by (intro scoreEnd_two [of r y]) simp_all
qed

text \<open>Evaluating a square root at a concrete perfect square.\<close>

lemma sqrt_sq_eval: "0 \<le> y \<Longrightarrow> x = y\<^sup>2 \<Longrightarrow> sqrt x = y"
  by simp

theorem scoreEnd_spec_witness:
  "filter inPlay [mkStone 0 (- TEE_Z) Yellow False 0, mkStone 0.3 (- TEE_Z) Red True 1,
                  mkStone 0 (0.6 - TEE_Z) Yellow True 2]
     = [mkStone 0.3 (- TEE_Z) Red True 1, mkStone 0 (0.6 - TEE_Z) Yellow True 2]
   \<and> buttonDist TowardNegZ (mkStone 0.3 (- TEE_Z) Red True 1) = 0.3
   \<and> buttonDist TowardNegZ (mkStone 0 (0.6 - TEE_Z) Yellow True 2) = 0.6
   \<and> scoreEnd [mkStone 0 (- TEE_Z) Yellow False 0, mkStone 0.3 (- TEE_Z) Red True 1,
                 mkStone 0 (0.6 - TEE_Z) Yellow True 2] TowardNegZ
       = \<lparr>red = 1, yellow = 0, winner = Some Red\<rparr>
   \<and> scoreEnd [mkStone 0 (- TEE_Z) Yellow False 0] TowardNegZ
       = \<lparr>red = 0, yellow = 0, winner = None\<rparr>"
proof -
  let ?o = "mkStone 0 (- TEE_Z) Yellow False 0"
  let ?r = "mkStone 0.3 (- TEE_Z) Red True 1"
  let ?y = "mkStone 0 (0.6 - TEE_Z) Yellow True 2"
  have f: "filter inPlay [?o, ?r, ?y] = [?r, ?y]" by (simp add: mkStone_def)
  have dr: "buttonDist TowardNegZ ?r = 0.3"
    by (simp add: buttonDist_def mkStone_def; rule sqrt_sq_eval; simp add: power2_eq_square)
  have dy: "buttonDist TowardNegZ ?y = 0.6"
    by (simp add: buttonDist_def mkStone_def; rule sqrt_sq_eval; simp add: power2_eq_square)
  have t: "team ?r = Red" "team ?y = Yellow" by (simp_all add: mkStone_def)
  from scoreEnd_spec [of "[?o, ?r, ?y]" TowardNegZ] f dr dy t
  have 1: "scoreEnd [?o, ?r, ?y] TowardNegZ = \<lparr>red = 1, yellow = 0, winner = Some Red\<rparr>"
    by blast
  have "filter inPlay [?o] = []" by (simp add: mkStone_def)
  with scoreEnd_spec [of "[?o]" TowardNegZ]
  have 2: "scoreEnd [?o] TowardNegZ = \<lparr>red = 0, yellow = 0, winner = None\<rparr>" by blast
  from f dr dy 1 2 show ?thesis by simp
qed

subsection \<open>Delivery\<close>

lemma deliverStone_new_stone:
  "deliveredStoneIndex (deliverStone w tm r i) = int (length (stones w)) \<and>
      pos (stones (deliverStone w tm r i) ! length (stones w))
        = \<lparr>xc = rel_x r, zc = (if targetEnd w = TowardNegZ then HACK_Z else - HACK_Z)\<rparr>"
  by (simp add: deliverStone_def Let_def)

lemma deliverStone_same_fields:
  assumes "rel_x r' = rel_x r" "rel_speed r' = rel_speed r" "rel_angle r' = rel_angle r"
    "rel_omega r' = rel_omega r"
  shows "deliverStone w tm r' i = deliverStone w tm r i"
  unfolding deliverStone_def Let_def by (simp only: assms)

text \<open>
  Claim C9. A delivery places the new stone at \<open>(release.x, hackZ)\<close>, where \<open>hackZ\<close> is the
  hack coordinate on the side fixed by the target end of the world alone. The \<open>z\<close> field of
  the release is never read: deliveries into the same world with releases that differ only
  in \<open>z\<close> give the same world.
\<close>

theorem deliverStone_ignores_release_z:
  "deliveredStoneIndex (deliverStone w tm r i) = int (length (stones w))
   \<and> pos (stones (deliverStone w tm r i) ! length (stones w))
        = \<lparr>xc = rel_x r, zc = (if targetEnd w = TowardNegZ then HACK_Z else - HACK_Z)\<rparr>
   \<and> (\<forall>r'. rel_x r' = rel_x r \<and> rel_speed r' = rel_speed r \<and> rel_angle r' = rel_angle r
          \<and> rel_omega r' = rel_omega r
        \<longrightarrow> deliverStone w tm r' i = deliverStone w tm r i)"
  using deliverStone_new_stone [of w tm r i] deliverStone_same_fields [of _ r w tm i]
  by blast

theorem deliverStone_ignores_release_z_witness:
  "deliverStone (newPhysicsWorld DEFAULT_ICE_PARAMS) Red
      \<lparr>rel_x = 0.1, rel_z = 5, rel_speed = 3, rel_angle = 0, rel_omega = 1\<rparr> 0
   = deliverStone (newPhysicsWorld DEFAULT_ICE_PARAMS) Red
      \<lparr>rel_x = 0.1, rel_z = 0, rel_speed = 3, rel_angle = 0, rel_omega = 1\<rparr> 0
   \<and> pos (stones (deliverStone (newPhysicsWorld DEFAULT_ICE_PARAMS) Red
      \<lparr>rel_x = 0.1, rel_z = 0, rel_speed = 3, rel_angle = 0, rel_omega = 1\<rparr> 0) ! 0)
     = \<lparr>xc = 0.1, zc = HACK_Z\<rparr>"
proof -
  let ?w = "newPhysicsWorld DEFAULT_ICE_PARAMS"
  let ?r = "\<lparr>rel_x = 0.1, rel_z = 0, rel_speed = 3, rel_angle = 0, rel_omega = 1\<rparr>"
  let ?r' = "\<lparr>rel_x = 0.1, rel_z = 5, rel_speed = 3, rel_angle = 0, rel_omega = 1\<rparr>"
  note t = deliverStone_ignores_release_z [of ?w Red ?r 0]
  have l: "length (stones ?w) = 0" and e: "targetEnd ?w = TowardNegZ"
    by (simp_all add: newPhysicsWorld_def)
  have f: "rel_x ?r' = rel_x ?r \<and> rel_speed ?r' = rel_speed ?r \<and> rel_angle ?r' = rel_angle ?r
          \<and> rel_omega ?r' = rel_omega ?r" by simp
  from t f have 1: "deliverStone ?w Red ?r' 0 = deliverStone ?w Red ?r 0" by blast
  from t have "pos (stones (deliverStone ?w Red ?r 0) ! length (stones ?w))
        = \<lparr>xc = rel_x ?r, zc = (if targetEnd ?w = TowardNegZ then HACK_Z else - HACK_Z)\<rparr>"
    by blast
  then have 2: "pos (stones (deliverStone ?w Red ?r 0) ! 0) = \<lparr>xc = 0.1, zc = HACK_Z\<rparr>"
    by (simp only: l e if_True ShotRelease.simps simp_thms)
  from 1 2 show ?thesis by blast
qed

subsection \<open>Throwing outside the aiming phase\<close>

text \<open>
  Claim C4. Outside the phase \<open>AIMING\<close>, \<open>GameController.throwStone\<close> is a no-op that leaves
  the controller and its world unchanged, while \<open>HeadlessGame.throwAndSettle\<close> returns with
  the error "Cannot throw stone in phase" and also leaves the state unchanged.
\<close>

theorem throw_outside_AIMING:
  "phase c \<noteq> AIMING \<Longrightarrow>
     throwStone c release = c
     \<and> throwAndSettle bigStep c release = Some (c, Inl (CannotThrowInPhase (phase c)))"
  by (simp add: throwStone_def throwAndSettle_def)

theorem throw_outside_AIMING_witness:
  "phase (newGameController\<lparr>phase := DELIVERING\<rparr>) \<noteq> AIMING
   \<and> throwStone (newGameController\<lparr>phase := DELIVERING\<rparr>)
        \<lparr>rel_x = 0, rel_z = 0, rel_speed = 3, rel_angle = 0, rel_omega = 1\<rparr>
       = newGameController\<lparr>phase := DELIVERING\<rparr>
   \<and> throwAndSettle (1 / 120) (newGameController\<lparr>phase := DELIVERING\<rparr>)
        \<lparr>rel_x = 0, rel_z = 0, rel_speed = 3, rel_angle = 0, rel_omega = 1\<rparr>
       = Some (newGameController\<lparr>phase := DELIVERING\<rparr>, Inl (CannotThrowInPhase DELIVERING))"
proof -
  have h: "phase (newGameController\<lparr>phase := DELIVERING\<rparr>) \<noteq> AIMING" by simp
  from throw_outside_AIMING [OF h] h show ?thesis by simp
qed

subsection \<open>What the collision resolver leaves alone\<close>

lemma positionalCorrection_inPlay:
  "inPlay (fst (positionalCorrection a b d nx nz)) = inPlay a
   \<and> inPlay (snd (positionalCorrection a b d nx nz)) = inPlay b"
  by (simp add: positionalCorrection_def Let_def)

lemma resolveStoneStone_inPlay:
  "inPlay (fst (resolveStoneStone a b)) = inPlay a
   \<and> inPlay (snd (resolveStoneStone a b)) = inPlay b"
  by (simp add: resolveStoneStone_def Let_def positionalCorrection_inPlay)

lemma length_resolvePairsFrom [simp]: "length (resolvePairsFrom i js sts) = length sts"
  by (induction js arbitrary: sts) (simp_all split: prod.splits)

lemma length_resolvePairs [simp]: "length (resolvePairs js sts) = length sts"
  by (induction js arbitrary: sts) simp_all

lemma length_resolveWalls [simp]: "length (resolveWalls js h sts) = length sts"
  by (induction js arbitrary: sts) simp_all

lemma length_resolveCollisions [simp]: "length (resolveCollisions sts) = length sts"
  by (simp add: resolveCollisions_def Let_def)

lemma length_stepPhysics [simp]: "length (stepPhysics sts icep sweep) = length sts"
  by (simp add: stepPhysics_def)

lemma length_applyRules [simp]: "length (applyRules sts d te) = length sts"
  by (simp add: applyRules_def)

lemma resolvePairsFrom_frame:
  "k \<noteq> i \<Longrightarrow> k \<notin> set js \<Longrightarrow> resolvePairsFrom i js sts ! k = sts ! k"
  by (induction js arbitrary: sts) (auto split: prod.splits)

lemma resolvePairs_frame: "k \<notin> set js \<Longrightarrow> resolvePairs js sts ! k = sts ! k"
  by (induction js arbitrary: sts) (auto simp: resolvePairsFrom_frame)

lemma nth_update_cases:
  "sts[i := a] ! k = (if k = i \<and> i < length sts then a else sts ! k)"
  by (cases "i < length sts") (auto simp: nth_list_update list_update_beyond)

lemma resolvePairsFrom_inPlay:
  "k < length sts \<Longrightarrow> inPlay (resolvePairsFrom i js sts ! k) = inPlay (sts ! k)"
proof (induction js arbitrary: sts)
  case Nil
  then show ?case by simp
next
  case (Cons j js)
  obtain a' b' where r: "resolveStoneStone (sts ! i) (sts ! j) = (a', b')"
    by (cases "resolveStoneStone (sts ! i) (sts ! j)")
  from resolveStoneStone_inPlay [of "sts ! i" "sts ! j"] r
  have ab: "inPlay a' = inPlay (sts ! i)" "inPlay b' = inPlay (sts ! j)" by simp_all
  let ?t = "sts[i := a', j := b']"
  have "inPlay (?t ! k) = inPlay (sts ! k)"
    using Cons.prems ab by (simp add: nth_update_cases)
  moreover have "inPlay (resolvePairsFrom i js ?t ! k) = inPlay (?t ! k)"
    using Cons.prems by (intro Cons.IH) simp
  ultimately show ?case by (simp add: r)
qed

lemma resolvePairs_inPlay:
  "k < length sts \<Longrightarrow> inPlay (resolvePairs js sts ! k) = inPlay (sts ! k)"
  by (induction js arbitrary: sts) (simp_all add: resolvePairsFrom_inPlay)

lemma resolveWall_idem: "resolveWall (resolveWall s h) h = resolveWall s h"
  by (simp add: resolveWall_def)

lemma resolveWalls_nth:
  "k < length sts \<Longrightarrow>
     resolveWalls js h sts ! k = (if k \<in> set js then resolveWall (sts ! k) h else sts ! k)"
proof (induction js arbitrary: sts)
  case Nil
  then show ?case by simp
next
  case (Cons i js)
  let ?t = "sts[i := resolveWall (sts ! i) h]"
  have "resolveWalls js h ?t ! k = (if k \<in> set js then resolveWall (?t ! k) h else ?t ! k)"
    using Cons.prems by (intro Cons.IH) simp
  then show ?case
    using Cons.prems by (auto simp: nth_update_cases resolveWall_idem)
qed

lemma activeIndices_iff: "k \<in> set (activeIndices sts) \<longleftrightarrow> k < length sts \<and> inPlay (sts ! k)"
  by (auto simp: activeIndices_def)

lemma resolveCollisions_nth:
  "k < length sts \<Longrightarrow>
     resolveCollisions sts ! k
       = (if inPlay (sts ! k)
          then resolveWall (resolvePairs (activeIndices sts) sts ! k) (SHEET_WIDTH / 2)
          else sts ! k)"
  by (simp add: resolveCollisions_def Let_def resolveWalls_nth activeIndices_iff resolvePairs_frame)

lemma integrateStone_inPlay [simp]: "inPlay (integrateStone icep sweep s) = inPlay s"
  by (simp add: integrateStone_def Let_def)

lemma integrateStone_out: "\<not> inPlay s \<Longrightarrow> integrateStone icep sweep s = s"
  by (simp add: integrateStone_def)

lemma applyRulesStone_out: "\<not> inPlay s \<Longrightarrow> applyRulesStone te s = s"
  by (simp add: applyRulesStone_def)

lemma applyRulesStone_mono: "inPlay (applyRulesStone te s) \<Longrightarrow> inPlay s"
  by (auto simp: applyRulesStone_def Let_def split: if_splits)

lemma applyRulesStone_pos [simp]: "pos (applyRulesStone te s) = pos s"
  by (simp add: applyRulesStone_def Let_def)

lemma resolveWall_pos [simp]: "pos (resolveWall s h) = pos s"
  by (simp add: resolveWall_def)

lemma resolveWall_mono: "inPlay (resolveWall s h) \<Longrightarrow> inPlay s"
  by (simp add: resolveWall_def split: if_splits)

lemma resolveCollisions_out:
  "k < length sts \<Longrightarrow> \<not> inPlay (sts ! k) \<Longrightarrow> resolveCollisions sts ! k = sts ! k"
  by (simp add: resolveCollisions_nth)

lemma stepPhysics_out:
  "k < length sts \<Longrightarrow> \<not> inPlay (sts ! k) \<Longrightarrow> stepPhysics sts icep sweep ! k = sts ! k"
  by (simp add: stepPhysics_def resolveCollisions_nth integrateStone_out)

lemma applyRules_out:
  "k < length sts \<Longrightarrow> \<not> inPlay (sts ! k) \<Longrightarrow> applyRules sts d te ! k = sts ! k"
  by (simp add: applyRules_def applyRulesStone_out)

lemma subStep_out:
  "k < length (stones w) \<Longrightarrow> \<not> inPlay (stones w ! k) \<Longrightarrow> stones (subStep w) ! k = stones w ! k"
  by (simp add: subStep_def applyRules_out stepPhysics_out)

lemma length_subStep [simp]: "length (stones (subStep w)) = length (stones w)"
  by (simp add: subStep_def)

subsection \<open>Stones never come back into play\<close>

lemma inPlayMonotone_refl: "inPlayMonotone sts sts"
  by (simp add: inPlayMonotone_def)

lemma inPlayMonotone_trans:
  "inPlayMonotone a b \<Longrightarrow> inPlayMonotone b c \<Longrightarrow> inPlayMonotone a c"
  by (auto simp: inPlayMonotone_def)

lemma mono_integrate: "inPlayMonotone sts (map (integrateStone icep sweep) sts)"
  by (simp add: inPlayMonotone_def)

lemma mono_resolveCollisions: "inPlayMonotone sts (resolveCollisions sts)"
  by (simp add: inPlayMonotone_def resolveCollisions_out)

lemma mono_stepPhysics: "inPlayMonotone sts (stepPhysics sts icep sweep)"
  by (simp add: inPlayMonotone_def stepPhysics_out)

lemma mono_applyRules: "inPlayMonotone sts (applyRules sts d te)"
  by (simp add: inPlayMonotone_def applyRules_out)

lemma mono_subStep: "inPlayMonotone (stones w) (stones (subStep w))"
  by (simp add: inPlayMonotone_def subStep_out)

lemma mono_updateLoop: "inPlayMonotone (stones w) (stones (updateLoop w))"
proof (induction w rule: updateLoop.induct)
  case (1 w)
  show ?case
  proof (cases "PHYSICS_DT \<le> accumulator w")
    case True
    with 1 have "inPlayMonotone (stones (subStep w)) (stones (updateLoop w))"
      by (simp add: updateLoop.simps [of w])
    with mono_subStep [of w] show ?thesis by (rule inPlayMonotone_trans)
  next
    case False
    then show ?thesis by (simp add: updateLoop.simps [of w] inPlayMonotone_refl)
  qed
qed

lemma mono_hogLineCheck: "inPlayMonotone (stones w) (stones (hogLineCheck w))"
  by (auto simp: inPlayMonotone_def hogLineCheck_def Let_def nth_list_update)

lemma stones_capAccumulator [simp]: "stones (capAccumulator w e) = stones w"
  by (simp add: capAccumulator_def Let_def)

lemma mono_update: "inPlayMonotone (stones w) (stones (fst (update w e)))"
proof -
  let ?w1 = "updateLoop (capAccumulator w e)"
  have a: "inPlayMonotone (stones w) (stones ?w1)"
    using mono_updateLoop [of "capAccumulator w e"] by simp
  show ?thesis
  proof (cases "isSimulating ?w1")
    case True
    with a show ?thesis by (simp add: update_def Let_def)
  next
    case False
    then have "stones (fst (update w e)) = stones (hogLineCheck ?w1)"
      by (simp add: update_def Let_def)
    with a mono_hogLineCheck [of ?w1] show ?thesis
      by (simp add: inPlayMonotone_trans)
  qed
qed

lemma mono_deliverStone: "inPlayMonotone (stones w) (stones (deliverStone w tm r i))"
  by (simp add: inPlayMonotone_def deliverStone_def Let_def nth_append)

lemma mono_throwStone: "inPlayMonotone (stones (world c)) (stones (world (throwStone c r)))"
  by (simp add: throwStone_def mono_deliverStone inPlayMonotone_refl)

lemma world_endEnd: "world (endEnd c) = world c"
  by (simp add: endEnd_def Let_def split: option.splits)

subsection \<open>The side boundary\<close>

lemma stepPhysics_wall:
  assumes "k < length sts" "beyondSideBoundary (stepPhysics sts icep sweep ! k)"
  shows "\<not> inPlay (stepPhysics sts icep sweep ! k)"
proof -
  let ?m = "map (integrateStone icep sweep) sts"
  have k: "k < length ?m" using assms by simp
  show ?thesis
  proof (cases "inPlay (?m ! k)")
    case False
    with k show ?thesis by (simp add: stepPhysics_def resolveCollisions_out del: nth_map)
  next
    case True
    with k have "stepPhysics sts icep sweep ! k
        = resolveWall (resolvePairs (activeIndices ?m) ?m ! k) (SHEET_WIDTH / 2)"
      by (simp add: stepPhysics_def resolveCollisions_nth del: nth_map)
    with assms(2) show ?thesis
      by (auto simp: beyondSideBoundary_def resolveWall_def split: if_splits)
  qed
qed

lemma subStep_wall:
  assumes "k < length (stones w)" "beyondSideBoundary (stones (subStep w) ! k)"
  shows "\<not> inPlay (stones (subStep w) ! k)"
proof -
  let ?p = "stepPhysics (stones w) (ice w) (sweeping w)"
  have "stones (subStep w) ! k = applyRulesStone (targetEnd w) (?p ! k)"
    using assms(1) by (simp add: subStep_def applyRules_def)
  moreover from this assms(2) have "beyondSideBoundary (?p ! k)"
    by (simp add: beyondSideBoundary_def)
  then have "\<not> inPlay (?p ! k)" using assms(1) by (intro stepPhysics_wall)
  ultimately show ?thesis using applyRulesStone_mono by metis
qed

text \<open>
  Claim C10. Every physics step (force integration, collision resolution, rules application,
  and their composition in one sub-step of the world) leaves every stone that is out of
  play exactly as it was: position, velocity, spin, orientation angle, team and delivery
  index are the same after the step as before.
\<close>

theorem out_of_play_stone_unchanged:
  "k < length sts \<Longrightarrow> \<not> inPlay (sts ! k) \<Longrightarrow>
     map (integrateStone icep sweep) sts ! k = sts ! k
     \<and> resolveCollisions sts ! k = sts ! k
     \<and> applyRules sts d te ! k = sts ! k
     \<and> stepPhysics sts icep sweep ! k = sts ! k
     \<and> applyRules (stepPhysics sts icep sweep) d te ! k = sts ! k"
  by (simp add: integrateStone_out resolveCollisions_out applyRules_out stepPhysics_out)

theorem out_of_play_stone_unchanged_witness:
  "1 < length [stoneNearBoard, stoneRemoved] \<and> \<not> inPlay ([stoneNearBoard, stoneRemoved] ! 1)
   \<and> stepPhysics [stoneNearBoard, stoneRemoved] DEFAULT_ICE_PARAMS False ! 1 = stoneRemoved
   \<and> applyRules (stepPhysics [stoneNearBoard, stoneRemoved] DEFAULT_ICE_PARAMS False)
        0 TowardNegZ ! 1 = stoneRemoved"
proof -
  have h: "1 < length [stoneNearBoard, stoneRemoved]"
    "\<not> inPlay ([stoneNearBoard, stoneRemoved] ! 1)"
    by (simp_all add: stoneRemoved_def)
  from out_of_play_stone_unchanged [OF h, of DEFAULT_ICE_PARAMS False 0 TowardNegZ] h
  show ?thesis by simp
qed

lemma integrate_stoneNearBoard:
  "integrateStone DEFAULT_ICE_PARAMS False stoneNearBoard =
     \<lparr>pos = \<lparr>xc = 133099673 / 60000000, zc = 0\<rparr>, vel = \<lparr>xc = 499673 / 500000, zc = 0\<rparr>,
      omega = 0, angle = 0, team = Red, inPlay = True, deliveryIndex = 0\<rparr>"
proof -
  have sq: "sqrt (249673106929 / 250000000000) = 499673 / 500000"
    by (rule sqrt_sq_eval) (simp_all add: power2_eq_square)
  show ?thesis
    by (simp add: integrateStone_def stoneNearBoard_def Let_def computeIceForces_def vecLen_def
        mu_def spinDecay_def DEFAULT_ICE_PARAMS_def PHYSICS_DT_def SETTLE_VEL_THRESHOLD_def
        SETTLE_OMEGA_THRESHOLD_def GRAVITY_def STONE_MASS_def sq)
qed

lemma step_stoneNearBoard:
  "stepPhysics [stoneNearBoard] DEFAULT_ICE_PARAMS False =
     [\<lparr>pos = \<lparr>xc = 133099673 / 60000000, zc = 0\<rparr>, vel = \<lparr>xc = 499673 / 500000, zc = 0\<rparr>,
       omega = 0, angle = 0, team = Red, inPlay = False, deliveryIndex = 0\<rparr>]"
  by (simp add: stepPhysics_def integrate_stoneNearBoard resolveCollisions_def activeIndices_def
      Let_def resolveWall_def STONE_RADIUS_def SHEET_WIDTH_def FT_def)

text \<open>
  Claim C5. A physics step in which the edge of a stone crosses a side boundary of the sheet
  marks the stone out of play on that very step: after every step, a stone whose edge is
  across the boundary is out of play. And \<open>inPlay\<close> is monotone: no operation of the engine
  (integration, collision resolution, the physics step, rules application, a sub-step,
  the world update with its hog-line check, delivery, throwing) turns \<open>inPlay\<close> of a stone
  from false back to true; scoring an end does not touch the world.
\<close>

theorem side_boundary_and_inPlay_monotone:
  "(\<forall>k<length sts. beyondSideBoundary (stepPhysics sts icep sweep ! k)
        \<longrightarrow> \<not> inPlay (stepPhysics sts icep sweep ! k))
   \<and> (\<forall>k<length (stones w). beyondSideBoundary (stones (subStep w) ! k)
        \<longrightarrow> \<not> inPlay (stones (subStep w) ! k))
   \<and> inPlayMonotone sts (map (integrateStone icep sweep) sts)
   \<and> inPlayMonotone sts (resolveCollisions sts)
   \<and> inPlayMonotone sts (stepPhysics sts icep sweep)
   \<and> inPlayMonotone sts (applyRules sts d te)
   \<and> inPlayMonotone (stones w) (stones (subStep w))
   \<and> inPlayMonotone (stones w) (stones (hogLineCheck w))
   \<and> inPlayMonotone (stones w) (stones (fst (update w elapsedSec)))
   \<and> inPlayMonotone (stones w) (stones (deliverStone w tm release i))
   \<and> inPlayMonotone (stones (world c)) (stones (world (throwStone c release)))
   \<and> world (endEnd c) = world c"
proof (intro conjI allI impI)
  fix k
  assume "k < length sts" "beyondSideBoundary (stepPhysics sts icep sweep ! k)"
  then show "\<not> inPlay (stepPhysics sts icep sweep ! k)" by (rule stepPhysics_wall)
next
  fix k
  assume "k < length (stones w)" "beyondSideBoundary (stones (subStep w) ! k)"
  then show "\<not> inPlay (stones (subStep w) ! k)" by (rule subStep_wall)
qed (rule mono_integrate mono_resolveCollisions mono_stepPhysics mono_applyRules mono_subStep
      mono_hogLineCheck mono_update mono_deliverStone mono_throwStone world_endEnd)+

theorem side_boundary_and_inPlay_monotone_witness:
  "inPlay stoneNearBoard \<and> \<not> beyondSideBoundary stoneNearBoard
   \<and> beyondSideBoundary (stepPhysics [stoneNearBoard] DEFAULT_ICE_PARAMS False ! 0)
   \<and> \<not> inPlay (stepPhysics [stoneNearBoard] DEFAULT_ICE_PARAMS False ! 0)
   \<and> \<not> inPlay (stoneRemoved)
   \<and> \<not> inPlay (stones (fst (update
          \<lparr>stones = [stoneRemoved], ice = DEFAULT_ICE_PARAMS, sweeping = False,
           targetEnd = TowardNegZ, deliveredStoneIndex = 0, accumulator = 0\<rparr> (1 / 60))) ! 0)"
proof -
  let ?w = "\<lparr>stones = [stoneRemoved], ice = DEFAULT_ICE_PARAMS, sweeping = False,
           targetEnd = TowardNegZ, deliveredStoneIndex = 0, accumulator = 0\<rparr>"
  note t = side_boundary_and_inPlay_monotone
    [of "[stoneNearBoard]" DEFAULT_ICE_PARAMS False ?w 0 TowardNegZ "1 / 60" Red
        "\<lparr>rel_x = 0, rel_z = 0, rel_speed = 3, rel_angle = 0, rel_omega = 1\<rparr>" 0
        newGameController]
  have a: "inPlay stoneNearBoard" "\<not> beyondSideBoundary stoneNearBoard"
    by (simp_all add: stoneNearBoard_def beyondSideBoundary_def STONE_RADIUS_def SHEET_WIDTH_def
        FT_def)
  have b: "beyondSideBoundary (stepPhysics [stoneNearBoard] DEFAULT_ICE_PARAMS False ! 0)"
    by (simp add: step_stoneNearBoard beyondSideBoundary_def STONE_RADIUS_def SHEET_WIDTH_def
        FT_def)
  from t have "\<forall>k<length [stoneNearBoard].
      beyondSideBoundary (stepPhysics [stoneNearBoard] DEFAULT_ICE_PARAMS False ! k)
        \<longrightarrow> \<not> inPlay (stepPhysics [stoneNearBoard] DEFAULT_ICE_PARAMS False ! k)"
    by (rule conjunct1)
  then have "beyondSideBoundary (stepPhysics [stoneNearBoard] DEFAULT_ICE_PARAMS False ! 0)
        \<longrightarrow> \<not> inPlay (stepPhysics [stoneNearBoard] DEFAULT_ICE_PARAMS False ! 0)"
    by simp
  with b have c: "\<not> inPlay (stepPhysics [stoneNearBoard] DEFAULT_ICE_PARAMS False ! 0)"
    by (rule mp [rotated])
  have d: "\<not> inPlay (stones ?w ! 0)" by (simp add: stoneRemoved_def)
  from t have m: "inPlayMonotone (stones ?w) (stones (fst (update ?w (1 / 60))))"
    by (elim conjE) assumption
  have l: "0 < length (stones ?w)" by simp
  from m l d have e: "\<not> inPlay (stones (fst (update ?w (1 / 60))) ! 0)"
    unfolding inPlayMonotone_def by blast
  have d': "\<not> inPlay stoneRemoved" by (simp add: stoneRemoved_def)
  from a b c d' e show ?thesis by (intro conjI)
qed

subsection \<open>Head-on collisions\<close>

lemma positionalCorrection_vel:
  "vel (fst (positionalCorrection a b d nx nz)) = vel a
   \<and> vel (snd (positionalCorrection a b d nx nz)) = vel b
   \<and> omega (fst (positionalCorrection a b d nx nz)) = omega a
   \<and> omega (snd (positionalCorrection a b d nx nz)) = omega b"
  by (simp add: positionalCorrection_def Let_def)

lemma centreNormal_unit:
  assumes "centreDist a b \<noteq> 0"
  shows "xc (centreNormal a b) * xc (centreNormal a b)
       + zc (centreNormal a b) * zc (centreNormal a b) = 1"
proof -
  define dx where "dx = xc (pos b) - xc (pos a)"
  define dz where "dz = zc (pos b) - zc (pos a)"
  define d where "d = centreDist a b"
  have dd: "d * d = dx * dx + dz * dz"
    by (simp add: d_def centreDist_def dx_def dz_def)
  have d0: "d * d \<noteq> 0" using assms by (simp add: d_def)
  have "(dx / d) * (dx / d) + (dz / d) * (dz / d) = (dx * dx + dz * dz) / (d * d)"
    by (simp only: times_divide_times_eq add_divide_distrib)
  also have "\<dots> = 1" using d0 by (simp add: dd [symmetric])
  finally show ?thesis
    by (simp only: centreNormal_def Vec2.select_convs dx_def dz_def d_def)
qed

lemma resolveStoneStone_headOn:
  assumes c: "inContact a b" and h: "headOn a b v" and oa: "omega a = 0" and ob: "omega b = 0"
  shows "vel (fst (resolveStoneStone a b)) = scaleVec (- (0.85 * v)) (centreNormal a b)"
    and "vel (snd (resolveStoneStone a b)) = scaleVec (0.85 * v) (centreNormal a b)"
    and "omega (fst (resolveStoneStone a b)) = 0"
    and "omega (snd (resolveStoneStone a b)) = 0"
proof -
  define nx where "nx = xc (centreNormal a b)"
  define nz where "nz = zc (centreNormal a b)"
  define d where "d = centreDist a b"
  from c have d1: "\<not> (d \<ge> CONTACT_DIST \<or> d < 0.00000001)" by (simp add: inContact_def d_def)
  then have dne: "centreDist a b \<noteq> 0" by (auto simp: d_def)
  have unit: "nx * nx + nz * nz = 1"
    unfolding nx_def nz_def by (rule centreNormal_unit [OF dne])
  from h have v0: "0 \<le> v" and va: "vel a = \<lparr>xc = v * nx, zc = v * nz\<rparr>"
    and vb: "vel b = \<lparr>xc = - v * nx, zc = - v * nz\<rparr>"
    by (simp_all add: headOn_def scaleVec_def nx_def nz_def)
  have dd: "sqrt ((xc (pos b) - xc (pos a)) * (xc (pos b) - xc (pos a))
         + (zc (pos b) - zc (pos a)) * (zc (pos b) - zc (pos a))) = d"
    by (simp add: d_def centreDist_def)
  have nn: "(xc (pos b) - xc (pos a)) / d = nx" "(zc (pos b) - zc (pos a)) / d = nz"
    by (simp_all add: nx_def nz_def centreNormal_def d_def)
  have rvn: "(- v * nx - v * nx) * nx + (- v * nz - v * nz) * nz = - 2 * v"
  proof -
    have "(- v * nx - v * nx) * nx + (- v * nz - v * nz) * nz = - 2 * v * (nx * nx + nz * nz)"
      by (simp add: algebra_simps)
    then show ?thesis by (simp add: unit)
  qed
  have rvt: "(- v * nx - v * nx) * (- nz) + (- v * nz - v * nz) * nx = 0"
    by (simp add: algebra_simps)
  have m: "STONE_MASS \<noteq> 0" by (simp add: STONE_MASS_def)
  have jn: "- (1 + COLLISION_RESTITUTION) * (- 2 * v) / (1 / STONE_MASS + 1 / STONE_MASS) / STONE_MASS
        = 1.85 * v"
    by (simp add: COLLISION_RESTITUTION_def STONE_MASS_def)
  have tt: "- (0 + 0 * STONE_RADIUS + - 0 * STONE_RADIUS) * STONE_MASS * (5 / 10) = 0"
    by simp
  have jt: "max (- (\<bar>j\<bar> * COLLISION_TANGENTIAL_FRICTION))
              (min (\<bar>j\<bar> * COLLISION_TANGENTIAL_FRICTION) 0) = 0" for j :: real
    by (simp add: COLLISION_TANGENTIAL_FRICTION_def)
  have res: "resolveStoneStone a b =
      positionalCorrection
        (a\<lparr>vel := \<lparr>xc = v * nx - 1.85 * v * nx, zc = v * nz - 1.85 * v * nz\<rparr>, omega := 0\<rparr>)
        (b\<lparr>vel := \<lparr>xc = - v * nx + 1.85 * v * nx, zc = - v * nz + 1.85 * v * nz\<rparr>, omega := 0\<rparr>)
        d nx nz"
    unfolding resolveStoneStone_def Let_def dd nn va vb oa ob
    using d1 v0 by (simp only: Vec2.select_convs rvn rvt tt jt jn) simp
  show "vel (fst (resolveStoneStone a b)) = scaleVec (- (0.85 * v)) (centreNormal a b)"
    by (simp add: res positionalCorrection_vel scaleVec_def nx_def nz_def algebra_simps)
  show "vel (snd (resolveStoneStone a b)) = scaleVec (0.85 * v) (centreNormal a b)"
    by (simp add: res positionalCorrection_vel scaleVec_def nx_def nz_def algebra_simps)
  show "omega (fst (resolveStoneStone a b)) = 0" "omega (snd (resolveStoneStone a b)) = 0"
    by (simp_all add: res positionalCorrection_vel)
qed

lemma vecLen_scaleVec_unit:
  assumes "xc u * xc u + zc u * zc u = 1"
  shows "vecLen (scaleVec k u) = \<bar>k\<bar>"
proof -
  have "xc (scaleVec k u) * xc (scaleVec k u) + zc (scaleVec k u) * zc (scaleVec k u)
      = k * k * (xc u * xc u + zc u * zc u)"
    by (simp add: scaleVec_def algebra_simps)
  then show ?thesis by (simp add: vecLen_def assms)
qed

lemma resolveWall_vel [simp]: "vel (resolveWall s h) = vel s"
  by (simp add: resolveWall_def)

lemma resolveCollisions_two:
  assumes "inPlay a" "inPlay b"
  shows "resolveCollisions [a, b]
     = [resolveWall (fst (resolveStoneStone a b)) (SHEET_WIDTH / 2),
        resolveWall (snd (resolveStoneStone a b)) (SHEET_WIDTH / 2)]"
proof -
  have act: "activeIndices [a, b] = [0, 1]"
    using assms by (simp add: activeIndices_def upt_rec)
  show ?thesis
    by (cases "resolveStoneStone a b") (simp add: resolveCollisions_def Let_def act)
qed

text \<open>
  Claim C7. Two stones in contact with zero spin that approach head-on along the line of
  centres with equal and opposite velocities of magnitude \<open>v\<close> leave the collision
  resolution with speed \<open>0.85 v\<close> each (the restitution coefficient times \<open>v\<close>), in the
  reversed directions; spins stay zero.
\<close>

theorem head_on_collision_restitution:
  assumes "inContact a b" and "headOn a b v" and "omega a = 0" and "omega b = 0"
  shows "vel (fst (resolveStoneStone a b)) = scaleVec (- (0.85 * v)) (centreNormal a b)
       \<and> vel (snd (resolveStoneStone a b)) = scaleVec (0.85 * v) (centreNormal a b)
       \<and> vecLen (vel (fst (resolveStoneStone a b))) = COLLISION_RESTITUTION * v
       \<and> vecLen (vel (snd (resolveStoneStone a b))) = COLLISION_RESTITUTION * v
       \<and> omega (fst (resolveStoneStone a b)) = 0 \<and> omega (snd (resolveStoneStone a b)) = 0
       \<and> (inPlay a \<and> inPlay b \<longrightarrow>
            vel (resolveCollisions [a, b] ! 0) = scaleVec (- (0.85 * v)) (centreNormal a b)
          \<and> vel (resolveCollisions [a, b] ! 1) = scaleVec (0.85 * v) (centreNormal a b))"
proof -
  note r = resolveStoneStone_headOn [OF assms]
  from assms(1) have "centreDist a b \<noteq> 0" by (auto simp: inContact_def)
  then have u: "xc (centreNormal a b) * xc (centreNormal a b)
       + zc (centreNormal a b) * zc (centreNormal a b) = 1"
    by (rule centreNormal_unit)
  from assms(2) have v0: "0 \<le> v" by (simp add: headOn_def)
  have l1: "vecLen (vel (fst (resolveStoneStone a b))) = COLLISION_RESTITUTION * v"
    using v0 by (simp add: r vecLen_scaleVec_unit [OF u] COLLISION_RESTITUTION_def)
  have l2: "vecLen (vel (snd (resolveStoneStone a b))) = COLLISION_RESTITUTION * v"
    using v0 by (simp add: r vecLen_scaleVec_unit [OF u] COLLISION_RESTITUTION_def)
  have c: "inPlay a \<and> inPlay b \<longrightarrow>
            vel (resolveCollisions [a, b] ! 0) = scaleVec (- (0.85 * v)) (centreNormal a b)
          \<and> vel (resolveCollisions [a, b] ! 1) = scaleVec (0.85 * v) (centreNormal a b)"
    by (simp add: resolveCollisions_two r)
  from r l1 l2 c show ?thesis by (intro conjI)
qed

theorem head_on_collision_restitution_witness:
  "inContact stoneA stoneB \<and> headOn stoneA stoneB 1 \<and> omega stoneA = 0 \<and> omega stoneB = 0
   \<and> vel (fst (resolveStoneStone stoneA stoneB)) = \<lparr>xc = 0, zc = - 0.85\<rparr>
   \<and> vel (snd (resolveStoneStone stoneA stoneB)) = \<lparr>xc = 0, zc = 0.85\<rparr>
   \<and> vel (resolveCollisions [stoneA, stoneB] ! 0) = \<lparr>xc = 0, zc = - 0.85\<rparr>
   \<and> vel (resolveCollisions [stoneA, stoneB] ! 1) = \<lparr>xc = 0, zc = 0.85\<rparr>"
proof -
  have sq: "sqrt (49 / 625) = 7 / 25"
    by (rule sqrt_sq_eval) (simp_all add: power2_eq_square)
  have d: "centreDist stoneA stoneB = 0.28"
    by (simp add: centreDist_def stoneA_def stoneB_def sq)
  have n: "centreNormal stoneA stoneB = \<lparr>xc = 0, zc = 1\<rparr>"
    by (simp add: centreNormal_def d) (simp add: stoneA_def stoneB_def)
  have c: "inContact stoneA stoneB"
    by (simp add: inContact_def d CONTACT_DIST_def STONE_RADIUS_def)
  have h: "headOn stoneA stoneB 1"
    by (simp add: headOn_def n scaleVec_def) (simp add: stoneA_def stoneB_def)
  have o: "omega stoneA = 0" "omega stoneB = 0" by (simp_all add: stoneA_def stoneB_def)
  have p: "inPlay stoneA \<and> inPlay stoneB" by (simp add: stoneA_def stoneB_def)
  from head_on_collision_restitution [OF c h o] p
  have "vel (fst (resolveStoneStone stoneA stoneB)) = scaleVec (- (0.85 * 1)) \<lparr>xc = 0, zc = 1\<rparr>
      \<and> vel (snd (resolveStoneStone stoneA stoneB)) = scaleVec (0.85 * 1) \<lparr>xc = 0, zc = 1\<rparr>
      \<and> vel (resolveCollisions [stoneA, stoneB] ! 0) = scaleVec (- (0.85 * 1)) \<lparr>xc = 0, zc = 1\<rparr>
      \<and> vel (resolveCollisions [stoneA, stoneB] ! 1) = scaleVec (0.85 * 1) \<lparr>xc = 0, zc = 1\<rparr>"
    unfolding n by blast
  then show ?thesis using c h o by (simp add: scaleVec_def)
qed

subsection \<open>The sub-step loop of update\<close>

lemma subStepCount_step:
  assumes "PHYSICS_DT \<le> acc"
  shows "subStepCount acc = Suc (subStepCount (acc - PHYSICS_DT))"
proof -
  define k where "k = \<lfloor>acc / PHYSICS_DT\<rfloor>"
  have "(acc - PHYSICS_DT) / PHYSICS_DT = acc / PHYSICS_DT - 1"
    by (simp add: PHYSICS_DT_def algebra_simps)
  then have f: "\<lfloor>(acc - PHYSICS_DT) / PHYSICS_DT\<rfloor> = k - 1"
    by (simp add: k_def)
  from assms have "1 \<le> acc / PHYSICS_DT" by (simp add: PHYSICS_DT_def)
  then have g: "1 \<le> k" unfolding k_def by (simp add: le_floor_iff)
  have "nat k = Suc (nat (k - 1))" using g by arith
  then show ?thesis by (simp only: subStepCount_def f k_def [symmetric])
qed

lemma subStepCount_zero:
  assumes "\<not> PHYSICS_DT \<le> acc"
  shows "subStepCount acc = 0"
proof -
  define k where "k = \<lfloor>acc / PHYSICS_DT\<rfloor>"
  from assms have "acc / PHYSICS_DT < 1" by (simp add: PHYSICS_DT_def)
  then have "k < 1" unfolding k_def by (simp add: floor_less_iff)
  then have "nat k = 0" by arith
  then show ?thesis by (simp only: subStepCount_def k_def [symmetric])
qed

lemma subStepCount_bound:
  assumes "acc \<le> 0.2"
  shows "subStepCount acc \<le> 24"
proof -
  define k where "k = \<lfloor>acc / PHYSICS_DT\<rfloor>"
  from assms have "acc / PHYSICS_DT \<le> 24" by (simp add: PHYSICS_DT_def)
  then have "k \<le> \<lfloor>24 :: real\<rfloor>" unfolding k_def by (rule floor_mono)
  then have "k \<le> 24" by simp
  then have "nat k \<le> 24" by arith
  then show ?thesis by (simp only: subStepCount_def k_def [symmetric])
qed

lemma accumulator_subStep [simp]: "accumulator (subStep w) = accumulator w - PHYSICS_DT"
  by (simp add: subStep_def)

lemma updateLoop_funpow:
  "updateLoop w = (subStep ^^ subStepCount (accumulator w)) w"
proof (induction w rule: updateLoop.induct)
  case (1 w)
  show ?case
  proof (cases "PHYSICS_DT \<le> accumulator w")
    case True
    then have "updateLoop w = updateLoop (subStep w)" by (simp add: updateLoop.simps [of w])
    also have "\<dots> = (subStep ^^ subStepCount (accumulator w - PHYSICS_DT)) (subStep w)"
      using 1 True by simp
    also have "\<dots> = (subStep ^^ subStepCount (accumulator w)) w"
      by (simp add: subStepCount_step [OF True] funpow_swap1)
    finally show ?thesis .
  next
    case False
    then show ?thesis by (simp add: updateLoop.simps [of w] subStepCount_zero)
  qed
qed

lemma accumulator_funpow_subStep:
  "accumulator ((subStep ^^ n) w) = accumulator w - real n * PHYSICS_DT"
  by (induction n) (simp_all add: algebra_simps)

lemma accumulator_updateLoop: "accumulator (updateLoop w) < PHYSICS_DT"
proof (induction w rule: updateLoop.induct)
  case (1 w)
  then show ?case by (cases "PHYSICS_DT \<le> accumulator w") (simp_all add: updateLoop.simps [of w])
qed

lemma accumulator_hogLineCheck [simp]: "accumulator (hogLineCheck w) = accumulator w"
  by (simp add: hogLineCheck_def Let_def)

lemma accumulator_update:
  "accumulator (fst (update w e)) = accumulator (updateLoop (capAccumulator w e))"
  by (simp add: update_def Let_def)

lemma capAccumulator_le: "accumulator (capAccumulator w e) \<le> 0.2"
  by (simp add: capAccumulator_def Let_def)

text \<open>
  Claim C8. For every call of \<open>PhysicsWorld.update\<close>, whatever the elapsed time, the
  accumulator is capped at 0.2 s before stepping, the call runs at most 24 fixed sub-steps
  (0.2 s / (1/120 s)), and it returns with the accumulator strictly below one timestep.
\<close>

theorem update_bounded_substeps:
  "accumulator (capAccumulator w elapsedSec) \<le> 0.2
   \<and> accumulator (capAccumulator w elapsedSec) = min (accumulator w + elapsedSec) 0.2
   \<and> subStepCount (accumulator (capAccumulator w elapsedSec)) \<le> 24
   \<and> updateLoop (capAccumulator w elapsedSec)
        = (subStep ^^ subStepCount (accumulator (capAccumulator w elapsedSec)))
            (capAccumulator w elapsedSec)
   \<and> accumulator (fst (update w elapsedSec))
        = accumulator (capAccumulator w elapsedSec)
          - real (subStepCount (accumulator (capAccumulator w elapsedSec))) * PHYSICS_DT
   \<and> accumulator (fst (update w elapsedSec)) < PHYSICS_DT"
proof (intro conjI)
  show "accumulator (capAccumulator w elapsedSec) \<le> 0.2" by (rule capAccumulator_le)
  show "accumulator (capAccumulator w elapsedSec) = min (accumulator w + elapsedSec) 0.2"
    by (simp add: capAccumulator_def Let_def)
  show "subStepCount (accumulator (capAccumulator w elapsedSec)) \<le> 24"
    by (rule subStepCount_bound [OF capAccumulator_le])
  show "updateLoop (capAccumulator w elapsedSec)
        = (subStep ^^ subStepCount (accumulator (capAccumulator w elapsedSec)))
            (capAccumulator w elapsedSec)"
    by (rule updateLoop_funpow)
  show "accumulator (fst (update w elapsedSec))
        = accumulator (capAccumulator w elapsedSec)
          - real (subStepCount (accumulator (capAccumulator w elapsedSec))) * PHYSICS_DT"
    by (simp only: accumulator_update updateLoop_funpow [of "capAccumulator w elapsedSec"]
        accumulator_funpow_subStep)
  show "accumulator (fst (update w elapsedSec)) < PHYSICS_DT"
    by (simp only: accumulator_update accumulator_updateLoop)
qed

theorem update_bounded_substeps_witness:
  "subStepCount (accumulator (capAccumulator (newPhysicsWorld DEFAULT_ICE_PARAMS) 10)) = 24
   \<and> accumulator (fst (update (newPhysicsWorld DEFAULT_ICE_PARAMS) 10)) = 0
   \<and> accumulator (fst (update (newPhysicsWorld DEFAULT_ICE_PARAMS) 10)) < PHYSICS_DT"
proof -
  have a: "accumulator (capAccumulator (newPhysicsWorld DEFAULT_ICE_PARAMS) 10) = 0.2"
    by (simp add: capAccumulator_def newPhysicsWorld_def Let_def)
  have n: "subStepCount (0.2) = 24"
    by (simp add: subStepCount_def PHYSICS_DT_def)
  from update_bounded_substeps [of "newPhysicsWorld DEFAULT_ICE_PARAMS" 10]
  show ?thesis unfolding a n by (simp add: PHYSICS_DT_def)
qed

subsection \<open>The hog-line check\<close>

lemma updateLoop_idle: "accumulator w < PHYSICS_DT \<Longrightarrow> updateLoop w = w"
  by (simp add: updateLoop.simps [of w])

lemma subStep_fields [simp]:
  "deliveredStoneIndex (subStep w) = deliveredStoneIndex w"
  "targetEnd (subStep w) = targetEnd w"
  "ice (subStep w) = ice w"
  "sweeping (subStep w) = sweeping w"
  by (simp_all add: subStep_def)

lemma updateLoop_fields:
  "deliveredStoneIndex (updateLoop w) = deliveredStoneIndex w
   \<and> targetEnd (updateLoop w) = targetEnd w
   \<and> ice (updateLoop w) = ice w \<and> sweeping (updateLoop w) = sweeping w"
proof (induction w rule: updateLoop.induct)
  case (1 w)
  then show ?case by (cases "PHYSICS_DT \<le> accumulator w") (simp_all add: updateLoop.simps [of w])
qed

lemma capAccumulator_fields [simp]:
  "deliveredStoneIndex (capAccumulator w e) = deliveredStoneIndex w"
  "targetEnd (capAccumulator w e) = targetEnd w"
  "ice (capAccumulator w e) = ice w"
  "sweeping (capAccumulator w e) = sweeping w"
  by (simp_all add: capAccumulator_def Let_def)

lemma checkHogLineViolation_iff:
  "checkHogLineViolation s te \<longleftrightarrow> \<not> fullyCrossedHogLine s te"
  by (cases te) (auto simp: checkHogLineViolation_def fullyCrossedHogLine_def Let_def)

lemma hogLineCheck_nth:
  assumes "k < length (stones w)"
  shows "stones (hogLineCheck w) ! k =
     (if int k = deliveredStoneIndex w \<and> inPlay (stones w ! k)
          \<and> \<not> fullyCrossedHogLine (stones w ! k) (targetEnd w)
      then (stones w ! k)\<lparr>inPlay := False\<rparr> else stones w ! k)"
proof (cases "int k = deliveredStoneIndex w")
  case True
  then have "0 \<le> deliveredStoneIndex w" "nat (deliveredStoneIndex w) = k" by auto
  with assms show ?thesis
    by (simp add: hogLineCheck_def Let_def checkHogLineViolation_iff True [symmetric])
next
  case False
  then have "nat (deliveredStoneIndex w) \<noteq> k \<or> deliveredStoneIndex w < 0" by linarith
  with False assms show ?thesis
    by (auto simp: hogLineCheck_def Let_def)
qed

lemma length_hogLineCheck [simp]: "length (stones (hogLineCheck w)) = length (stones w)"
  by (simp add: hogLineCheck_def Let_def)

lemma hogLineCheck_none: "deliveredStoneIndex w = - 1 \<Longrightarrow> hogLineCheck w = w"
  by (simp add: hogLineCheck_def)

lemma update_settled:
  assumes "\<not> isSimulating (updateLoop (capAccumulator w e))"
  shows "update w e
     = ((hogLineCheck (updateLoop (capAccumulator w e)))\<lparr>deliveredStoneIndex := - 1\<rparr>, False)"
  using assms by (simp add: update_def Let_def)

lemma update_moving:
  assumes "isSimulating (updateLoop (capAccumulator w e))"
  shows "update w e = (updateLoop (capAccumulator w e), True)"
  using assms by (simp add: update_def Let_def)

text \<open>A stone at rest away from the boards and the back line is not changed by a sub-step.\<close>

lemma subStep_hogWorld:
  assumes "- BACK_LINE_Z - STONE_RADIUS \<le> pz"
  shows "subStep ((hogWorld pz)\<lparr>accumulator := acc\<rparr>)
       = (hogWorld pz)\<lparr>accumulator := acc - PHYSICS_DT\<rparr>"
proof -
  have i: "integrateStone DEFAULT_ICE_PARAMS False (mkStone 0 pz Red True 0) = mkStone 0 pz Red True 0"
    by (simp add: integrateStone_def mkStone_def Let_def SETTLE_VEL_THRESHOLD_def
        SETTLE_OMEGA_THRESHOLD_def)
  have c: "resolveCollisions [mkStone 0 pz Red True 0] = [mkStone 0 pz Red True 0]"
    by (simp add: resolveCollisions_def activeIndices_def Let_def resolveWall_def mkStone_def
        STONE_RADIUS_def SHEET_WIDTH_def FT_def)
  have r: "applyRulesStone TowardNegZ (mkStone 0 pz Red True 0) = mkStone 0 pz Red True 0"
    using assms
    by (simp add: applyRulesStone_def Let_def mkStone_def HALF_WIDTH_def SHEET_WIDTH_def FT_def
        STONE_RADIUS_def)
  show ?thesis
    by (simp add: subStep_def hogWorld_def stepPhysics_def i c applyRules_def r)
qed

lemma updateLoop_hogWorld:
  assumes "- BACK_LINE_Z - STONE_RADIUS \<le> pz"
  shows "updateLoop (capAccumulator (hogWorld pz) (1 / 60)) = hogWorld pz"
proof -
  have a: "capAccumulator (hogWorld pz) (1 / 60) = (hogWorld pz)\<lparr>accumulator := 1 / 60\<rparr>"
    by (simp add: capAccumulator_def Let_def hogWorld_def)
  have "updateLoop ((hogWorld pz)\<lparr>accumulator := 1 / 60\<rparr>)
      = updateLoop ((hogWorld pz)\<lparr>accumulator := 1 / 120\<rparr>)"
    by (subst updateLoop.simps) (simp add: subStep_hogWorld [OF assms] PHYSICS_DT_def)
  also have "\<dots> = updateLoop ((hogWorld pz)\<lparr>accumulator := 0\<rparr>)"
    by (subst updateLoop.simps) (simp add: subStep_hogWorld [OF assms] PHYSICS_DT_def)
  also have "\<dots> = (hogWorld pz)\<lparr>accumulator := 0\<rparr>"
    by (rule updateLoop_idle) (simp add: PHYSICS_DT_def)
  also have "\<dots> = hogWorld pz" by (simp add: hogWorld_def)
  finally show ?thesis by (simp only: a)
qed

lemma hogWorld_settled: "\<not> isSimulating (hogWorld pz)"
  by (simp add: isSimulating_def hogWorld_def mkStone_def)

text \<open>
  Claim C2, as stated, fails: a delivered stone that comes to rest with its centre on the far
  hog line has its leading edge across the line, and the update that finds the world
  settled marks it out of play all the same.
\<close>

theorem hog_line_leading_edge_counterexample:
  "snd (update (hogWorld (- HOG_Z)) (1 / 60)) = False
   \<and> inPlay (stones (hogWorld (- HOG_Z)) ! 0)
   \<and> pos (stones (fst (update (hogWorld (- HOG_Z)) (1 / 60))) ! 0) = \<lparr>xc = 0, zc = - HOG_Z\<rparr>
   \<and> leadingEdgeCrossedHogLine (stones (fst (update (hogWorld (- HOG_Z)) (1 / 60))) ! 0) TowardNegZ
   \<and> \<not> inPlay (stones (fst (update (hogWorld (- HOG_Z)) (1 / 60))) ! 0)"
proof -
  have b: "- BACK_LINE_Z - STONE_RADIUS \<le> - HOG_Z"
    by (simp add: BACK_LINE_Z_def HOG_Z_def TEE_Z_def FT_def STONE_RADIUS_def)
  have u: "update (hogWorld (- HOG_Z)) (1 / 60)
      = ((hogLineCheck (hogWorld (- HOG_Z)))\<lparr>deliveredStoneIndex := - 1\<rparr>, False)"
    using update_settled [of "hogWorld (- HOG_Z)" "1 / 60"]
    by (simp add: updateLoop_hogWorld [OF b] hogWorld_settled)
  have h: "stones (hogLineCheck (hogWorld (- HOG_Z))) = [mkStone 0 (- HOG_Z) Red False 0]"
    by (simp add: hogLineCheck_def hogWorld_def Let_def checkHogLineViolation_def mkStone_def
        STONE_RADIUS_def)
  show ?thesis
    by (simp add: u h) (simp add: hogWorld_def mkStone_def leadingEdgeCrossedHogLine_def
        STONE_RADIUS_def)
qed

text \<open>
  Claim C2, amended. When an update finds that no stone is moving, the delivered stone, if it
  is in play, is marked out of play if and only if it has not fully crossed the far hog
  line (its trailing edge has not reached the line), judged at the position it has then;
  every other stone, and a delivered stone that has fully crossed, is left as it is. The
  delivered index is then reset to \<open>-1\<close>, and an update that starts with the index \<open>-1\<close>
  makes no hog-line check, so the check is made once per delivery. While a stone is still
  moving the update makes no check.
\<close>

theorem hog_line_check_on_settle:
  "(isSimulating (updateLoop (capAccumulator w e))
      \<longrightarrow> update w e = (updateLoop (capAccumulator w e), True))
   \<and> (\<not> isSimulating (updateLoop (capAccumulator w e))
      \<longrightarrow> snd (update w e) = False
        \<and> deliveredStoneIndex (fst (update w e)) = - 1
        \<and> length (stones (fst (update w e))) = length (stones (updateLoop (capAccumulator w e)))
        \<and> (\<forall>k<length (stones (updateLoop (capAccumulator w e))).
              stones (fst (update w e)) ! k =
                (let s = stones (updateLoop (capAccumulator w e)) ! k in
                 if int k = deliveredStoneIndex w \<and> inPlay s
                      \<and> \<not> fullyCrossedHogLine s (targetEnd w)
                 then s\<lparr>inPlay := False\<rparr> else s)))
   \<and> (deliveredStoneIndex w = - 1
      \<longrightarrow> stones (fst (update w e)) = stones (updateLoop (capAccumulator w e)))
   \<and> (checkHogLineViolation s0 te \<longleftrightarrow> \<not> fullyCrossedHogLine s0 te)"
proof -
  let ?w1 = "updateLoop (capAccumulator w e)"
  have f: "deliveredStoneIndex ?w1 = deliveredStoneIndex w" "targetEnd ?w1 = targetEnd w"
    using updateLoop_fields [of "capAccumulator w e"] by simp_all
  have 1: "isSimulating ?w1 \<longrightarrow> update w e = (?w1, True)"
    by (simp add: update_moving)
  have 2: "\<not> isSimulating ?w1
      \<longrightarrow> snd (update w e) = False
        \<and> deliveredStoneIndex (fst (update w e)) = - 1
        \<and> length (stones (fst (update w e))) = length (stones ?w1)
        \<and> (\<forall>k<length (stones ?w1).
              stones (fst (update w e)) ! k =
                (let s = stones ?w1 ! k in
                 if int k = deliveredStoneIndex w \<and> inPlay s
                      \<and> \<not> fullyCrossedHogLine s (targetEnd w)
                 then s\<lparr>inPlay := False\<rparr> else s))"
    by (simp add: update_settled hogLineCheck_nth f Let_def)
  have 3: "deliveredStoneIndex w = - 1 \<longrightarrow> stones (fst (update w e)) = stones ?w1"
  proof
    assume "deliveredStoneIndex w = - 1"
    then have "hogLineCheck ?w1 = ?w1" by (intro hogLineCheck_none) (simp add: f)
    then show "stones (fst (update w e)) = stones ?w1"
      by (cases "isSimulating ?w1") (simp_all add: update_settled update_moving)
  qed
  from 1 2 3 checkHogLineViolation_iff [of s0 te] show ?thesis by (intro conjI)
qed

theorem hog_line_check_on_settle_witness:
  "\<not> isSimulating (updateLoop (capAccumulator (hogWorld (- HOG_Z)) (1 / 60)))
   \<and> \<not> fullyCrossedHogLine (mkStone 0 (- HOG_Z) Red True 0) TowardNegZ
   \<and> stones (fst (update (hogWorld (- HOG_Z)) (1 / 60))) ! 0 = mkStone 0 (- HOG_Z) Red False 0
   \<and> \<not> isSimulating (updateLoop (capAccumulator (hogWorld (- HOG_Z - 1)) (1 / 60)))
   \<and> fullyCrossedHogLine (mkStone 0 (- HOG_Z - 1) Red True 0) TowardNegZ
   \<and> stones (fst (update (hogWorld (- HOG_Z - 1)) (1 / 60))) ! 0 = mkStone 0 (- HOG_Z - 1) Red True 0
   \<and> deliveredStoneIndex (fst (update (hogWorld (- HOG_Z - 1)) (1 / 60))) = - 1"
proof -
  have b: "- BACK_LINE_Z - STONE_RADIUS \<le> - HOG_Z" "- BACK_LINE_Z - STONE_RADIUS \<le> - HOG_Z - 1"
    by (simp_all add: BACK_LINE_Z_def HOG_Z_def TEE_Z_def FT_def STONE_RADIUS_def)
  have l: "updateLoop (capAccumulator (hogWorld (- HOG_Z)) (1 / 60)) = hogWorld (- HOG_Z)"
    "updateLoop (capAccumulator (hogWorld (- HOG_Z - 1)) (1 / 60)) = hogWorld (- HOG_Z - 1)"
    by (rule updateLoop_hogWorld, rule b)+
  have q: "\<not> isSimulating (updateLoop (capAccumulator (hogWorld (- HOG_Z)) (1 / 60)))"
    "\<not> isSimulating (updateLoop (capAccumulator (hogWorld (- HOG_Z - 1)) (1 / 60)))"
    by (simp_all only: l hogWorld_settled not_False_eq_True)
  have c: "\<not> fullyCrossedHogLine (mkStone 0 (- HOG_Z) Red True 0) TowardNegZ"
    "fullyCrossedHogLine (mkStone 0 (- HOG_Z - 1) Red True 0) TowardNegZ"
    by (simp_all add: fullyCrossedHogLine_def mkStone_def STONE_RADIUS_def)
  have s: "stones (hogWorld pz) ! 0 = mkStone 0 pz Red True 0"
    "length (stones (hogWorld pz)) = 1" "deliveredStoneIndex (hogWorld pz) = 0"
    "targetEnd (hogWorld pz) = TowardNegZ" for pz
    by (simp_all add: hogWorld_def)
  from hog_line_check_on_settle [of "hogWorld (- HOG_Z)" "1 / 60"] q(1)
  have "stones (fst (update (hogWorld (- HOG_Z)) (1 / 60))) ! 0 = mkStone 0 (- HOG_Z) Red False 0"
    unfolding l using c(1) by (simp add: s Let_def) (simp add: mkStone_def)
  moreover
  from hog_line_check_on_settle [of "hogWorld (- HOG_Z - 1)" "1 / 60"] q(2)
  have "stones (fst (update (hogWorld (- HOG_Z - 1)) (1 / 60))) ! 0
          = mkStone 0 (- HOG_Z - 1) Red True 0
        \<and> deliveredStoneIndex (fst (update (hogWorld (- HOG_Z - 1)) (1 / 60))) = - 1"
    unfolding l using c(2) by (simp add: s Let_def)
  ultimately show ?thesis using q c by blast
qed

subsection \<open>The settle clamp\<close>

lemma resolveStoneStone_noContact:
  "\<not> inContact a b \<Longrightarrow> resolveStoneStone a b = (a, b)"
  by (auto simp: resolveStoneStone_def inContact_def centreDist_def Let_def)

lemma resolvePairsFrom_noContact:
  assumes "\<forall>j\<in>set js. \<not> inContact (sts ! i) (sts ! j)"
  shows "resolvePairsFrom i js sts = sts"
  using assms by (induction js) (simp_all add: resolveStoneStone_noContact)

lemma resolvePairs_noContact:
  assumes "\<forall>i\<in>set js. \<forall>j\<in>set js. \<not> inContact (sts ! i) (sts ! j)"
  shows "resolvePairs js sts = sts"
  using assms by (induction js) (simp_all add: resolvePairsFrom_noContact)

lemma resolveCollisions_noContact:
  assumes "noContact sts" "k < length sts"
  shows "resolveCollisions sts ! k
       = (if inPlay (sts ! k) then resolveWall (sts ! k) (SHEET_WIDTH / 2) else sts ! k)"
proof -
  have "\<forall>i\<in>set (activeIndices sts). \<forall>j\<in>set (activeIndices sts).
          \<not> inContact (sts ! i) (sts ! j)"
    using assms(1) by (simp add: noContact_def activeIndices_iff)
  then have "resolvePairs (activeIndices sts) sts = sts" by (rule resolvePairs_noContact)
  with assms(2) show ?thesis by (simp add: resolveCollisions_nth)
qed

lemma resolveWall_omega [simp]: "omega (resolveWall s h) = omega s"
  by (simp add: resolveWall_def)

lemma resolveWall_angle [simp]: "angle (resolveWall s h) = angle s"
  by (simp add: resolveWall_def)

lemma integrateStone_settled:
  assumes "inPlay s" "belowSettleThresholds s"
  shows "integrateStone icep sweep s = s\<lparr>vel := \<lparr>xc = 0, zc = 0\<rparr>, omega := 0\<rparr>"
  using assms by (simp add: integrateStone_def belowSettleThresholds_def Let_def)

lemma zero_belowSettleThresholds:
  "vel s = \<lparr>xc = 0, zc = 0\<rparr> \<Longrightarrow> omega s = 0 \<Longrightarrow> belowSettleThresholds s"
  by (simp add: belowSettleThresholds_def SETTLE_VEL_THRESHOLD_def SETTLE_OMEGA_THRESHOLD_def)

lemma integrateStone_zero:
  assumes "vel s = \<lparr>xc = 0, zc = 0\<rparr>" "omega s = 0"
  shows "integrateStone icep sweep s = s"
proof (cases "inPlay s")
  case True
  then have "integrateStone icep sweep s = s\<lparr>vel := \<lparr>xc = 0, zc = 0\<rparr>, omega := 0\<rparr>"
    using zero_belowSettleThresholds [OF assms] by (rule integrateStone_settled)
  also have "\<dots> = s" using assms by simp
  finally show ?thesis .
next
  case False
  then show ?thesis by (rule integrateStone_out)
qed

lemma stepPhysics_noContact_zero:
  assumes k: "k < length sts" and v: "vel (sts ! k) = \<lparr>xc = 0, zc = 0\<rparr>" and o: "omega (sts ! k) = 0"
    and nc: "noContact (map (integrateStone icep sweep) sts)"
  shows "vel (stepPhysics sts icep sweep ! k) = \<lparr>xc = 0, zc = 0\<rparr>
       \<and> omega (stepPhysics sts icep sweep ! k) = 0
       \<and> pos (stepPhysics sts icep sweep ! k) = pos (sts ! k)
       \<and> angle (stepPhysics sts icep sweep ! k) = angle (sts ! k)"
proof -
  let ?m = "map (integrateStone icep sweep) sts"
  have mk: "?m ! k = sts ! k" using k by (simp add: integrateStone_zero [OF v o])
  have "stepPhysics sts icep sweep ! k
      = (if inPlay (?m ! k) then resolveWall (?m ! k) (SHEET_WIDTH / 2) else ?m ! k)"
    unfolding stepPhysics_def using nc k by (intro resolveCollisions_noContact) simp_all
  then show ?thesis using v o by (simp add: mk)
qed

lemma stepPhysics_noContact_settled:
  assumes k: "k < length sts" and ip: "inPlay (sts ! k)" and b: "belowSettleThresholds (sts ! k)"
    and nc: "noContact (map (integrateStone icep sweep) sts)"
  shows "vel (stepPhysics sts icep sweep ! k) = \<lparr>xc = 0, zc = 0\<rparr>
       \<and> omega (stepPhysics sts icep sweep ! k) = 0
       \<and> pos (stepPhysics sts icep sweep ! k) = pos (sts ! k)
       \<and> angle (stepPhysics sts icep sweep ! k) = angle (sts ! k)"
proof -
  let ?m = "map (integrateStone icep sweep) sts"
  have mk: "?m ! k = (sts ! k)\<lparr>vel := \<lparr>xc = 0, zc = 0\<rparr>, omega := 0\<rparr>"
    using k by (simp add: integrateStone_settled [OF ip b])
  have "stepPhysics sts icep sweep ! k
      = (if inPlay (?m ! k) then resolveWall (?m ! k) (SHEET_WIDTH / 2) else ?m ! k)"
    unfolding stepPhysics_def using nc k by (intro resolveCollisions_noContact) simp_all
  then show ?thesis by (simp add: mk)
qed

lemma integrate_stoneB:
  "integrateStone DEFAULT_ICE_PARAMS False stoneB =
     \<lparr>pos = \<lparr>xc = 0, zc = 16300327 / 60000000\<rparr>, vel = \<lparr>xc = 0, zc = - (499673 / 500000)\<rparr>,
      omega = 0, angle = 0, team = Yellow, inPlay = True, deliveryIndex = Suc 0\<rparr>"
proof -
  have sq: "sqrt (249673106929 / 250000000000) = 499673 / 500000"
    by (rule sqrt_sq_eval) (simp_all add: power2_eq_square)
  show ?thesis
    by (simp add: integrateStone_def stoneB_def Let_def computeIceForces_def vecLen_def
        mu_def spinDecay_def DEFAULT_ICE_PARAMS_def PHYSICS_DT_def SETTLE_VEL_THRESHOLD_def
        SETTLE_OMEGA_THRESHOLD_def GRAVITY_def STONE_MASS_def sq)
qed

lemma collide_stoneAtRest:
  "vel (fst (resolveStoneStone stoneAtRest
     \<lparr>pos = \<lparr>xc = 0, zc = 16300327 / 60000000\<rparr>, vel = \<lparr>xc = 0, zc = - (499673 / 500000)\<rparr>,
      omega = 0, angle = 0, team = Yellow, inPlay = True, deliveryIndex = Suc 0\<rparr>))
   = \<lparr>xc = 0, zc = - (18487901 / 20000000)\<rparr>"
proof -
  have sq: "sqrt (265700660306929 / 3600000000000000) = 16300327 / 60000000"
    by (rule sqrt_sq_eval) (simp_all add: power2_eq_square)
  show ?thesis
    by (simp add: resolveStoneStone_def stoneAtRest_def mkStone_def Let_def sq CONTACT_DIST_def
        STONE_RADIUS_def STONE_MASS_def COLLISION_RESTITUTION_def COLLISION_TANGENTIAL_FRICTION_def
        positionalCorrection_vel)
qed

text \<open>
  Claim C6, as stated, fails: a stone at rest in play (speed and spin below the thresholds)
  that is struck in the same step by a stone arriving at 1 m/s leaves the step with the
  velocity of the impulse, not zero.
\<close>

theorem settle_clamp_collision_counterexample:
  "inPlay stoneAtRest \<and> belowSettleThresholds stoneAtRest
   \<and> vel (stepPhysics [stoneAtRest, stoneB] DEFAULT_ICE_PARAMS False ! 0)
       = \<lparr>xc = 0, zc = - (18487901 / 20000000)\<rparr>"
proof -
  have a: "inPlay stoneAtRest" by (simp add: stoneAtRest_def mkStone_def)
  have z: "vel stoneAtRest = \<lparr>xc = 0, zc = 0\<rparr>" "omega stoneAtRest = 0"
    by (simp_all add: stoneAtRest_def mkStone_def)
  have b: "belowSettleThresholds stoneAtRest" by (rule zero_belowSettleThresholds [OF z])
  have i: "integrateStone DEFAULT_ICE_PARAMS False stoneAtRest = stoneAtRest"
    by (rule integrateStone_zero [OF z])
  have "stepPhysics [stoneAtRest, stoneB] DEFAULT_ICE_PARAMS False
      = resolveCollisions [stoneAtRest,
          \<lparr>pos = \<lparr>xc = 0, zc = 16300327 / 60000000\<rparr>, vel = \<lparr>xc = 0, zc = - (499673 / 500000)\<rparr>,
           omega = 0, angle = 0, team = Yellow, inPlay = True, deliveryIndex = Suc 0\<rparr>]"
    by (simp add: stepPhysics_def i integrate_stoneB)
  then have "vel (stepPhysics [stoneAtRest, stoneB] DEFAULT_ICE_PARAMS False ! 0)
      = \<lparr>xc = 0, zc = - (18487901 / 20000000)\<rparr>"
    using a by (simp add: resolveCollisions_two collide_stoneAtRest)
  with a b show ?thesis by simp
qed

lemma not_inContact_self: "\<not> inContact s s"
  by (simp add: inContact_def centreDist_def)

lemma noContact_single: "noContact [s]"
  by (simp add: noContact_def not_inContact_self)

text \<open>
  Claim C6, amended. For an in-play stone whose speed is below 0.003 m/s and whose spin is
  below 0.01 rad/s in absolute value, the integration stage of a physics step sets velocity
  and spin to exactly zero and skips the force integration (position and orientation stay
  as they were), and integrating again changes nothing. If the collision stage of the step
  finds no two in-play stones in contact, velocity and spin are exactly zero after the
  whole step, and they are still exactly zero after a further such step.
\<close>

theorem settle_clamp:
  assumes "k < length sts" and "inPlay (sts ! k)" and "belowSettleThresholds (sts ! k)"
  shows "map (integrateStone icep sweep) sts ! k = (sts ! k)\<lparr>vel := \<lparr>xc = 0, zc = 0\<rparr>, omega := 0\<rparr>
    \<and> integrateStone icep sweep (integrateStone icep sweep (sts ! k))
        = integrateStone icep sweep (sts ! k)
    \<and> (noContact (map (integrateStone icep sweep) sts) \<longrightarrow>
          vel (stepPhysics sts icep sweep ! k) = \<lparr>xc = 0, zc = 0\<rparr>
        \<and> omega (stepPhysics sts icep sweep ! k) = 0
        \<and> pos (stepPhysics sts icep sweep ! k) = pos (sts ! k)
        \<and> angle (stepPhysics sts icep sweep ! k) = angle (sts ! k)
        \<and> (noContact (map (integrateStone icep sweep) (stepPhysics sts icep sweep)) \<longrightarrow>
              vel (stepPhysics (stepPhysics sts icep sweep) icep sweep ! k) = \<lparr>xc = 0, zc = 0\<rparr>
            \<and> omega (stepPhysics (stepPhysics sts icep sweep) icep sweep ! k) = 0
            \<and> pos (stepPhysics (stepPhysics sts icep sweep) icep sweep ! k) = pos (sts ! k)
            \<and> angle (stepPhysics (stepPhysics sts icep sweep) icep sweep ! k) = angle (sts ! k)))"
proof (intro conjI impI)
  note i = integrateStone_settled [OF assms(2,3), of icep sweep]
  show "map (integrateStone icep sweep) sts ! k = (sts ! k)\<lparr>vel := \<lparr>xc = 0, zc = 0\<rparr>, omega := 0\<rparr>"
    using assms(1) by (simp add: i)
  show "integrateStone icep sweep (integrateStone icep sweep (sts ! k))
        = integrateStone icep sweep (sts ! k)"
    unfolding i by (rule integrateStone_zero) simp_all
next
  assume nc: "noContact (map (integrateStone icep sweep) sts)"
  note s1 = stepPhysics_noContact_settled [OF assms nc]
  from s1 show "vel (stepPhysics sts icep sweep ! k) = \<lparr>xc = 0, zc = 0\<rparr>"
    and "omega (stepPhysics sts icep sweep ! k) = 0"
    and "pos (stepPhysics sts icep sweep ! k) = pos (sts ! k)"
    and "angle (stepPhysics sts icep sweep ! k) = angle (sts ! k)"
    by simp_all
  assume nc2: "noContact (map (integrateStone icep sweep) (stepPhysics sts icep sweep))"
  have k2: "k < length (stepPhysics sts icep sweep)" using assms(1) by simp
  from s1 have v: "vel (stepPhysics sts icep sweep ! k) = \<lparr>xc = 0, zc = 0\<rparr>"
    and o: "omega (stepPhysics sts icep sweep ! k) = 0" by simp_all
  note s2 = stepPhysics_noContact_zero [OF k2 v o nc2]
  from s1 s2 show "vel (stepPhysics (stepPhysics sts icep sweep) icep sweep ! k) = \<lparr>xc = 0, zc = 0\<rparr>"
    and "omega (stepPhysics (stepPhysics sts icep sweep) icep sweep ! k) = 0"
    and "pos (stepPhysics (stepPhysics sts icep sweep) icep sweep ! k) = pos (sts ! k)"
    and "angle (stepPhysics (stepPhysics sts icep sweep) icep sweep ! k) = angle (sts ! k)"
    by simp_all
qed

theorem settle_clamp_witness:
  "inPlay ([stoneCreeping] ! 0) \<and> belowSettleThresholds ([stoneCreeping] ! 0)
   \<and> noContact (map (integrateStone DEFAULT_ICE_PARAMS False) [stoneCreeping])
   \<and> integrateStone DEFAULT_ICE_PARAMS False stoneCreeping
       = stoneCreeping\<lparr>vel := \<lparr>xc = 0, zc = 0\<rparr>, omega := 0\<rparr>
   \<and> vel (stepPhysics [stoneCreeping] DEFAULT_ICE_PARAMS False ! 0) = \<lparr>xc = 0, zc = 0\<rparr>
   \<and> omega (stepPhysics [stoneCreeping] DEFAULT_ICE_PARAMS False ! 0) = 0
   \<and> vel (stepPhysics (stepPhysics [stoneCreeping] DEFAULT_ICE_PARAMS False)
            DEFAULT_ICE_PARAMS False ! 0) = \<lparr>xc = 0, zc = 0\<rparr>
   \<and> omega (stepPhysics (stepPhysics [stoneCreeping] DEFAULT_ICE_PARAMS False)
            DEFAULT_ICE_PARAMS False ! 0) = 0"
proof -
  have sq: "sqrt (1 / 1000000) = 1 / 1000"
    by (rule sqrt_sq_eval) (simp_all add: power2_eq_square)
  have h: "0 < length [stoneCreeping]" "inPlay ([stoneCreeping] ! 0)"
    "belowSettleThresholds ([stoneCreeping] ! 0)"
    by (simp_all add: stoneCreeping_def belowSettleThresholds_def sq SETTLE_VEL_THRESHOLD_def
        SETTLE_OMEGA_THRESHOLD_def)
  have n1: "noContact (map (integrateStone DEFAULT_ICE_PARAMS False) [stoneCreeping])"
    by (simp add: noContact_single)
  have "length (stepPhysics [stoneCreeping] DEFAULT_ICE_PARAMS False) = 1" by simp
  then obtain t where t: "stepPhysics [stoneCreeping] DEFAULT_ICE_PARAMS False = [t]"
    by (cases "stepPhysics [stoneCreeping] DEFAULT_ICE_PARAMS False") auto
  have n2: "noContact (map (integrateStone DEFAULT_ICE_PARAMS False)
              (stepPhysics [stoneCreeping] DEFAULT_ICE_PARAMS False))"
    by (simp add: t noContact_single)
  from settle_clamp [OF h, of DEFAULT_ICE_PARAMS False] n1 n2 h(2,3) show ?thesis
    by simp
qed

subsection \<open>Running the world to quiescence\<close>

lemma advanceWorld_0 [simp]: "advanceWorld bigStep 0 w = w"
  by (simp add: advanceWorld_def)

lemma advanceWorld_Suc:
  "advanceWorld bigStep (Suc n) w = advanceWorld bigStep n (fst (update w bigStep))"
  unfolding advanceWorld_def by (induction n) simp_all

lemma isSimulating_iff:
  "isSimulating w \<longleftrightarrow>
     (\<exists>s\<in>set (stones w). inPlay s \<and>
        (\<bar>xc (vel s)\<bar> > 0.001 \<or> \<bar>zc (vel s)\<bar> > 0.001 \<or> \<bar>omega s\<bar> > 0.01))"
  by (simp add: isSimulating_def list_ex_iff)

lemma not_isSimulating_iff: "\<not> isSimulating w \<longleftrightarrow> withinMotionThresholds w"
  by (auto simp: isSimulating_iff withinMotionThresholds_def not_less)

lemma hogLineCheck_stones:
  "stones (hogLineCheck w) = stones w
   \<or> (\<exists>k d. stones (hogLineCheck w) = (stones w)[k := d\<lparr>inPlay := False\<rparr>])"
  by (simp add: hogLineCheck_def Let_def) blast

lemma hogLineCheck_settled:
  assumes "\<not> isSimulating w"
  shows "\<not> isSimulating ((hogLineCheck w)\<lparr>deliveredStoneIndex := - 1\<rparr>)"
proof -
  have "s \<in> set (stones w) \<or> \<not> inPlay s" if "s \<in> set (stones (hogLineCheck w))" for s
  proof -
    from hogLineCheck_stones [of w] show ?thesis
    proof
      assume "stones (hogLineCheck w) = stones w"
      with that show ?thesis by simp
    next
      assume "\<exists>k d. stones (hogLineCheck w) = (stones w)[k := d\<lparr>inPlay := False\<rparr>]"
      then obtain k d where "stones (hogLineCheck w) = (stones w)[k := d\<lparr>inPlay := False\<rparr>]"
        by blast
      with that have "s \<in> insert (d\<lparr>inPlay := False\<rparr>) (set (stones w))"
        using set_update_subset_insert [of "stones w" k "d\<lparr>inPlay := False\<rparr>"] by auto
      then show ?thesis by auto
    qed
  qed
  with assms show ?thesis unfolding isSimulating_iff by (simp del: ) blast
qed

lemma update_not_moving:
  assumes "\<not> snd (update w e)"
  shows "\<not> isSimulating (fst (update w e))"
proof (cases "isSimulating (updateLoop (capAccumulator w e))")
  case True
  with assms show ?thesis by (simp add: update_moving)
next
  case False
  then show ?thesis by (simp add: update_settled hogLineCheck_settled)
qed

lemma runUntilSettled_terminates:
  assumes "\<not> snd (update (advanceWorld bigStep n w) bigStep)"
  shows "\<exists>y. runUntilSettled bigStep w k = Some y"
  using assms
proof (induction n arbitrary: w k)
  case 0
  obtain w1 mv where u: "update w bigStep = (w1, mv)" by (cases "update w bigStep")
  with 0 have "\<not> mv" by simp
  with u show ?case by (subst runUntilSettled.simps) (simp add: Let_def)
next
  case (Suc n)
  obtain w1 mv where u: "update w bigStep = (w1, mv)" by (cases "update w bigStep")
  show ?case
  proof (cases mv)
    case False
    with u show ?thesis by (subst runUntilSettled.simps) (simp add: Let_def)
  next
    case True
    from Suc.prems u have "\<not> snd (update (advanceWorld bigStep n w1) bigStep)"
      by (simp add: advanceWorld_Suc)
    from Suc.IH [OF this] obtain y where
      "runUntilSettled bigStep w1 (k + subStepCount (accumulator (capAccumulator w bigStep))) = Some y"
      by blast
    with u True show ?thesis by (subst runUntilSettled.simps) (simp add: Let_def)
  qed
qed

lemma runUntilSettled_Some:
  assumes "runUntilSettled bigStep w k = Some y"
  shows "\<exists>n. (\<forall>i<n. snd (update (advanceWorld bigStep i w) bigStep))
           \<and> \<not> snd (update (advanceWorld bigStep n w) bigStep)
           \<and> fst y = fst (update (advanceWorld bigStep n w) bigStep)
           \<and> snd y = k + (\<Sum>i\<le>n. subStepCount
                  (accumulator (capAccumulator (advanceWorld bigStep i w) bigStep)))"
proof -
  define P where "P = (\<lambda>(bigStep :: real) (w :: PhysicsWorld) (k :: nat) (y :: PhysicsWorld \<times> nat).
      \<exists>n. (\<forall>i<n. snd (update (advanceWorld bigStep i w) bigStep))
           \<and> \<not> snd (update (advanceWorld bigStep n w) bigStep)
           \<and> fst y = fst (update (advanceWorld bigStep n w) bigStep)
           \<and> snd y = k + (\<Sum>i\<le>n. subStepCount
                  (accumulator (capAccumulator (advanceWorld bigStep i w) bigStep))))"
  have "P bigStep w k y"
  proof (rule runUntilSettled.raw_induct [where P = P, OF _ assms])
    fix f :: "real \<Rightarrow> PhysicsWorld \<Rightarrow> nat \<Rightarrow> (PhysicsWorld \<times> nat) option"
    fix bigStep w k y
    assume IH: "\<And>b v m z. f b v m = Some z \<Longrightarrow> P b v m z"
    assume body: "(case update w bigStep of
      (w', stillMoving) \<Rightarrow>
        let n' = k + subStepCount (accumulator (capAccumulator w bigStep))
        in if stillMoving then f bigStep w' n' else Some (w', n')) = Some y"
  obtain w1 mv where u: "update w bigStep = (w1, mv)" by (cases "update w bigStep")
  let ?c = "subStepCount (accumulator (capAccumulator w bigStep))"
  show "P bigStep w k y"
  proof (cases mv)
    case False
    with body u have y: "y = (w1, k + ?c)" by (simp add: Let_def)
    have "\<forall>i<(0::nat). snd (update (advanceWorld bigStep i w) bigStep)" by simp
    moreover have "\<not> snd (update (advanceWorld bigStep 0 w) bigStep)"
      using u False by simp
    moreover have "fst y = fst (update (advanceWorld bigStep 0 w) bigStep)"
      using u y by simp
    moreover have "snd y = k + (\<Sum>i\<le>0. subStepCount
                  (accumulator (capAccumulator (advanceWorld bigStep i w) bigStep)))"
      using y by simp
    ultimately show ?thesis unfolding P_def by (intro exI [of _ 0] conjI)
  next
    case True
    with body u have "f bigStep w1 (k + ?c) = Some y" by (simp add: Let_def)
    from IH [OF this, unfolded P_def] obtain n where
      n0: "(\<forall>i<n. snd (update (advanceWorld bigStep i w1) bigStep))
        \<and> \<not> snd (update (advanceWorld bigStep n w1) bigStep)
        \<and> fst y = fst (update (advanceWorld bigStep n w1) bigStep)
        \<and> snd y = k + ?c + (\<Sum>i\<le>n. subStepCount
                  (accumulator (capAccumulator (advanceWorld bigStep i w1) bigStep)))"
      by (rule exE)
    then have n: "\<forall>i<n. snd (update (advanceWorld bigStep i w1) bigStep)"
        "\<not> snd (update (advanceWorld bigStep n w1) bigStep)"
        "fst y = fst (update (advanceWorld bigStep n w1) bigStep)"
        "snd y = k + ?c + (\<Sum>i\<le>n. subStepCount
                  (accumulator (capAccumulator (advanceWorld bigStep i w1) bigStep)))"
      by simp_all
    have w1: "w1 = fst (update w bigStep)" by (simp add: u)
    have a: "\<forall>i<Suc n. snd (update (advanceWorld bigStep i w) bigStep)"
    proof (intro allI impI)
      fix i assume i: "i < Suc n"
      show "snd (update (advanceWorld bigStep i w) bigStep)"
      proof (cases i)
        case 0
        with u True show ?thesis by simp
      next
        case (Suc j)
        with i n(1) have "snd (update (advanceWorld bigStep j w1) bigStep)" by simp
        then show ?thesis by (simp add: Suc advanceWorld_Suc w1 [symmetric])
      qed
    qed
    have s: "(\<Sum>i\<le>Suc n. subStepCount
                  (accumulator (capAccumulator (advanceWorld bigStep i w) bigStep)))
        = ?c + (\<Sum>i\<le>n. subStepCount
                  (accumulator (capAccumulator (advanceWorld bigStep i w1) bigStep)))"
      by (simp only: sum.atMost_Suc_shift advanceWorld_Suc w1 advanceWorld_0)
    have b: "\<not> snd (update (advanceWorld bigStep (Suc n) w) bigStep)"
      using n(2) by (simp add: advanceWorld_Suc w1 [symmetric])
    have c: "fst y = fst (update (advanceWorld bigStep (Suc n) w) bigStep)"
      using n(3) by (simp add: advanceWorld_Suc w1 [symmetric])
    have d: "snd y = k + (\<Sum>i\<le>Suc n. subStepCount
                  (accumulator (capAccumulator (advanceWorld bigStep i w) bigStep)))"
      by (simp only: n(4) s add.assoc)
    from a b c d show ?thesis unfolding P_def by (intro exI [of _ "Suc n"] conjI)
  qed
  qed
  then show ?thesis by (simp only: P_def)
qed

lemma runUntilSettled_diverges:
  assumes "\<forall>n. snd (update (advanceWorld bigStep n w) bigStep)"
  shows "runUntilSettled bigStep w k = None"
proof (cases "runUntilSettled bigStep w k")
  case None
  then show ?thesis .
next
  case (Some y)
  from runUntilSettled_Some [OF Some] obtain n
    where "\<not> snd (update (advanceWorld bigStep n w) bigStep)" by blast
  with assms show ?thesis by blast
qed

lemma runUntilSettled_returns_iff:
  "runUntilSettled bigStep w k \<noteq> None \<longleftrightarrow> reachesQuiescence bigStep w"
proof
  assume "runUntilSettled bigStep w k \<noteq> None"
  then obtain y where "runUntilSettled bigStep w k = Some y" by blast
  from runUntilSettled_Some [OF this] show "reachesQuiescence bigStep w"
    unfolding reachesQuiescence_def by blast
next
  assume "reachesQuiescence bigStep w"
  then obtain n where "\<not> snd (update (advanceWorld bigStep n w) bigStep)"
    unfolding reachesQuiescence_def by blast
  from runUntilSettled_terminates [OF this, of k] show "runUntilSettled bigStep w k \<noteq> None"
    by auto
qed

subsection \<open>A stone that never settles\<close>

lemma spinningAtHack_subStep:
  assumes "spinningAtHack w"
  shows "spinningAtHack (subStep w)"
proof -
  from assms obtain a where k: "kSpin (ice w) = 0" and t: "targetEnd w = TowardNegZ"
    and s: "stones w = [\<lparr>pos = \<lparr>xc = 0, zc = HACK_Z\<rparr>, vel = \<lparr>xc = 0, zc = 0\<rparr>, omega = 1,
              angle = a, team = Red, inPlay = True, deliveryIndex = 0\<rparr>]"
    unfolding spinningAtHack_def by blast
  let ?s = "\<lparr>pos = \<lparr>xc = 0, zc = HACK_Z\<rparr>, vel = \<lparr>xc = 0, zc = 0\<rparr>, omega = 1,
              angle = a, team = Red, inPlay = True, deliveryIndex = 0\<rparr>"
  let ?s' = "\<lparr>pos = \<lparr>xc = 0, zc = HACK_Z\<rparr>, vel = \<lparr>xc = 0, zc = 0\<rparr>, omega = 1,
              angle = a + PHYSICS_DT, team = Red, inPlay = True, deliveryIndex = 0\<rparr>"
  have i: "integrateStone (ice w) (sweeping w) ?s = ?s'"
    by (simp add: integrateStone_def Let_def computeIceForces_def vecLen_def spinDecay_def k
        SETTLE_VEL_THRESHOLD_def SETTLE_OMEGA_THRESHOLD_def)
  have c: "resolveCollisions [?s'] = [?s']"
    by (simp add: resolveCollisions_def activeIndices_def Let_def resolveWall_def
        STONE_RADIUS_def SHEET_WIDTH_def FT_def)
  have r: "applyRulesStone TowardNegZ ?s' = ?s'"
    by (simp add: applyRulesStone_def Let_def HALF_WIDTH_def SHEET_WIDTH_def FT_def
        STONE_RADIUS_def HACK_Z_def BACK_LINE_Z_def TEE_Z_def)
  have "stones (subStep w) = [?s']"
    by (simp add: subStep_def s t stepPhysics_def i c applyRules_def r)
  with k t show ?thesis unfolding spinningAtHack_def by simp
qed

lemma spinningAtHack_updateLoop: "spinningAtHack w \<Longrightarrow> spinningAtHack (updateLoop w)"
proof (induction w rule: updateLoop.induct)
  case (1 w)
  show ?case
  proof (cases "PHYSICS_DT \<le> accumulator w")
    case True
    with 1 spinningAtHack_subStep [of w] show ?thesis by (simp add: updateLoop.simps [of w])
  next
    case False
    with 1 show ?thesis by (simp add: updateLoop.simps [of w])
  qed
qed

lemma spinningAtHack_isSimulating: "spinningAtHack w \<Longrightarrow> isSimulating w"
  unfolding spinningAtHack_def isSimulating_iff by auto

lemma spinningAtHack_capAccumulator: "spinningAtHack w \<Longrightarrow> spinningAtHack (capAccumulator w e)"
  by (simp add: spinningAtHack_def)

lemma spinningAtHack_update:
  assumes "spinningAtHack w"
  shows "snd (update w e) \<and> spinningAtHack (fst (update w e))"
proof -
  let ?w1 = "updateLoop (capAccumulator w e)"
  have s: "spinningAtHack ?w1"
    using assms by (intro spinningAtHack_updateLoop spinningAtHack_capAccumulator)
  then have "isSimulating ?w1" by (rule spinningAtHack_isSimulating)
  then have "update w e = (?w1, True)" by (rule update_moving)
  with s show ?thesis by simp
qed

lemma spinningAtHack_advance:
  "spinningAtHack w \<Longrightarrow> spinningAtHack (advanceWorld bigStep n w)"
proof (induction n arbitrary: w)
  case 0
  then show ?case by simp
next
  case (Suc n)
  from spinningAtHack_update [OF Suc.prems] have "spinningAtHack (fst (update w bigStep))"
    by simp
  then show ?case by (simp add: advanceWorld_Suc Suc.IH)
qed

lemma spinningAtHack_never_quiescent:
  "spinningAtHack w \<Longrightarrow> \<not> reachesQuiescence bigStep w"
  unfolding reachesQuiescence_def
  using spinningAtHack_update spinningAtHack_advance by blast

lemma throwStone_noSpinDecayGame:
  "spinningAtHack (world (throwStone noSpinDecayGame spinOnlyRelease))"
  by (simp add: throwStone_def noSpinDecayGame_def newGameController_def newPhysicsWorld_def
      deliverStone_def Let_def spinOnlyRelease_def currentTeam_def spinningAtHack_def)

lemma throwAndSettle_None_iff:
  assumes "phase c = AIMING"
  shows "throwAndSettle bigStep c release = None
     \<longleftrightarrow> runUntilSettled bigStep (world (throwStone c release)) 0 = None"
  using assms by (simp add: throwAndSettle_def Let_def split: option.splits prod.splits)

lemma throwAndSettle_Some:
  assumes a: "phase c = AIMING" and r: "throwAndSettle bigStep c release = Some r"
  shows "\<exists>w' m c' res. runUntilSettled bigStep (world (throwStone c release)) 0 = Some (w', m)
     \<and> r = (c', Inr res) \<and> world c' = w' \<and> steps res = m \<and> finalState res = getState c'
     \<and> deliveryCount c' = deliveryCount c + 1"
proof -
  from a r obtain w' m where
    run: "runUntilSettled bigStep (world (throwStone c release)) 0 = Some (w', m)"
    by (auto simp: throwAndSettle_def Let_def split: option.splits prod.splits)
  have d: "deliveryCount (throwStone c release) = deliveryCount c + 1"
    using a by (simp add: throwStone_def)
  from a r run have "\<exists>c' res. r = (c', Inr res) \<and> world c' = w' \<and> steps res = m
      \<and> finalState res = getState c' \<and> deliveryCount c' = deliveryCount (throwStone c release)"
    by (auto simp: throwAndSettle_def Let_def split: option.splits)
  with run d show ?thesis by auto
qed

subsection \<open>A lone stone comes to rest\<close>

lemma settlingIce_default: "settlingIce DEFAULT_ICE_PARAMS"
  by (simp add: settlingIce_def DEFAULT_ICE_PARAMS_def STONE_MASS_def GRAVITY_def PHYSICS_DT_def
      SETTLE_OMEGA_THRESHOLD_def SETTLE_VEL_THRESHOLD_def)

lemma alphaOmega_computeIceForces:
  "alphaOmega (computeIceForces s icep sweep) = spinDecay (omega s) (speedOf s) icep"
  by (simp add: computeIceForces_def Let_def vecLen_def speedOf_def)

lemma omega_integrateStone:
  assumes "inPlay s" "\<not> belowSettleThresholds s"
  shows "omega (integrateStone icep sweep s)
       = (if omega s + spinDecay (omega s) (speedOf s) icep * PHYSICS_DT \<noteq> 0
             \<and> \<bar>omega s + spinDecay (omega s) (speedOf s) icep * PHYSICS_DT\<bar> < SETTLE_OMEGA_THRESHOLD
          then 0 else omega s + spinDecay (omega s) (speedOf s) icep * PHYSICS_DT)"
proof -
  have n: "\<not> (sqrt (xc (vel s) * xc (vel s) + zc (vel s) * zc (vel s)) < SETTLE_VEL_THRESHOLD
       \<and> \<bar>omega s\<bar> < SETTLE_OMEGA_THRESHOLD)"
    using assms(2) unfolding belowSettleThresholds_def .
  show ?thesis
    unfolding integrateStone_def Let_def alphaOmega_computeIceForces
    using n by (auto simp add: assms(1))
qed

lemma spin_step:
  assumes ice: "settlingIce icep" and ip: "inPlay s" and ns: "\<not> belowSettleThresholds s"
    and om0: "omega s \<noteq> 0"
  shows "omega (integrateStone icep sweep s) = 0
       \<or> \<bar>omega (integrateStone icep sweep s)\<bar>
           \<le> \<bar>omega s\<bar> - kSpin icep * STONE_MASS * GRAVITY * PHYSICS_DT"
proof -
  define om where "om = omega s"
  define sp where "sp = speedOf s"
  define e where "e = kSpin icep * STONE_MASS * GRAVITY * PHYSICS_DT"
  define sf where "sf = 1 + 2 / (1 + sp)"
  define d where "d = e * sf"
  define om1 where "om1 = om + spinDecay om sp icep * PHYSICS_DT"
  have sp: "0 \<le> sp" by (simp add: sp_def speedOf_def)
  have om: "om \<noteq> 0" using om0 by (simp add: om_def)
  have sa: "omega (integrateStone icep sweep s)
        = (if om1 \<noteq> 0 \<and> \<bar>om1\<bar> < SETTLE_OMEGA_THRESHOLD then 0 else om1)"
    unfolding om1_def om_def sp_def by (rule omega_integrateStone [OF ip ns])
  have e0: "0 < e" and e3: "3 * e \<le> SETTLE_OMEGA_THRESHOLD"
    using ice by (simp_all add: settlingIce_def e_def STONE_MASS_def GRAVITY_def PHYSICS_DT_def)
  have sf1: "1 \<le> sf" "sf \<le> 3" using sp by (simp_all add: sf_def field_simps)
  have d1: "e \<le> d" "d \<le> 3 * e"
    using e0 sf1 by (simp_all add: d_def mult_left_mono)
  show ?thesis
  proof (cases "\<bar>om\<bar> < 0.001")
    case True
    then have "om1 = om" by (simp add: om1_def spinDecay_def)
    with True om have "omega (integrateStone icep sweep s) = 0"
      by (simp add: sa SETTLE_OMEGA_THRESHOLD_def)
    then show ?thesis by simp
  next
    case False
    then have sd: "spinDecay om sp icep * PHYSICS_DT = - sgn om * d"
      by (simp add: spinDecay_def Let_def d_def e_def sf_def algebra_simps)
    have ab: "\<bar>om1\<bar> = \<bar>\<bar>om\<bar> - d\<bar>"
    proof (cases "0 < om")
      case True
      then show ?thesis by (simp add: om1_def sd)
    next
      case False
      with om have neg: "om < 0" by simp
      then have "om1 = - (\<bar>om\<bar> - d)" by (simp add: om1_def sd)
      then show ?thesis by (simp only: abs_minus)
    qed
    show ?thesis
    proof (cases "d \<le> \<bar>om\<bar>")
      case True
      then have "\<bar>om1\<bar> = \<bar>om\<bar> - d" by (simp add: ab)
      with d1 have "\<bar>om1\<bar> \<le> \<bar>om\<bar> - e" by simp
      then show ?thesis unfolding sa e_def om_def by auto
    next
      case False
      with om have "\<bar>om1\<bar> < d" unfolding ab by arith
      with d1 e3 have "\<bar>om1\<bar> < SETTLE_OMEGA_THRESHOLD" by simp
      then have "omega (integrateStone icep sweep s) = 0" unfolding sa by auto
      then show ?thesis by simp
    qed
  qed
qed

lemma sqrt_scaled:
  "sqrt (r * x * (r * x) + r * z * (r * z)) = \<bar>r\<bar> * sqrt (x * x + z * z)"
proof -
  have "r * x * (r * x) + r * z * (r * z) = (r * r) * (x * x + z * z)"
    by (simp add: algebra_simps)
  then show ?thesis by (simp add: real_sqrt_mult)
qed

lemma speedOf_nonneg [simp]: "0 \<le> speedOf s"
  by (simp add: speedOf_def)

lemma speedOf_sq: "xc (vel s) * xc (vel s) + zc (vel s) * zc (vel s) = speedOf s * speedOf s"
  by (simp add: speedOf_def)

lemma speedOf_zero_vel: "vel s = \<lparr>xc = 0, zc = 0\<rparr> \<Longrightarrow> speedOf s = 0"
  by (simp add: speedOf_def)

lemma mu_pos:
  assumes "settlingIce icep"
  shows "0 < mu sp icep sweep"
  using assms by (simp add: mu_def Let_def settlingIce_def)

lemma mu_slow:
  assumes "settlingIce icep" "sp \<le> 0.01"
  shows "mu sp icep sweep * GRAVITY * PHYSICS_DT < 2 * SETTLE_VEL_THRESHOLD"
proof -
  from assms have a: "0 < muMax icep" "0 < sweepMuFactor icep" "sweepMuFactor icep \<le> 1"
    and b: "muMax icep * GRAVITY * PHYSICS_DT < 2 * SETTLE_VEL_THRESHOLD"
    by (simp_all add: settlingIce_def)
  have "mu sp icep sweep \<le> muMax icep"
    using assms(2) a by (simp add: mu_def Let_def mult_left_le)
  then have "mu sp icep sweep * GRAVITY * PHYSICS_DT \<le> muMax icep * GRAVITY * PHYSICS_DT"
    by (simp add: GRAVITY_def PHYSICS_DT_def)
  with b show ?thesis by simp
qed

lemma mu_lower:
  assumes ice: "settlingIce icep" and sp: "0 < sp" "sp \<le> S"
  shows "min (mu0 icep * S powr (- 0.5)) (muMax icep)
            * (if sweep then sweepMuFactor icep else 1) \<le> mu sp icep sweep"
proof -
  from ice have a: "0 < mu0 icep" "0 < muMax icep" "0 < sweepMuFactor icep"
    by (simp_all add: settlingIce_def)
  have "S powr (- 0.5) \<le> sp powr (- 0.5)"
    using sp by (intro powr_mono2') simp_all
  then have "mu0 icep * S powr (- 0.5) \<le> mu0 icep * sp powr (- 0.5)"
    using a by simp
  then have b: "min (mu0 icep * S powr (- 0.5)) (muMax icep)
      \<le> (if sp > 0.01 then min (mu0 icep * sp powr (- 0.5)) (muMax icep) else muMax icep)"
    by (simp add: min_def)
  show ?thesis
  proof (cases sweep)
    case True
    with b a show ?thesis by (simp add: mu_def Let_def)
  next
    case False
    with b show ?thesis by (simp add: mu_def Let_def)
  qed
qed

lemma forces_no_spin:
  assumes "omega s = 0" "0.0005 \<le> speedOf s"
  shows "ax (computeIceForces s icep sweep)
           = - (mu (speedOf s) icep sweep * GRAVITY) * (xc (vel s) / speedOf s)"
    and "az (computeIceForces s icep sweep)
           = - (mu (speedOf s) icep sweep * GRAVITY) * (zc (vel s) / speedOf s)"
  using assms by (simp_all add: computeIceForces_def Let_def vecLen_def speedOf_def)

lemma vel_integrateStone:
  assumes "inPlay s" "\<not> belowSettleThresholds s"
  shows "vel (integrateStone icep sweep s) =
     (let f = computeIceForces s icep sweep;
          vx1 = xc (vel s) + ax f * PHYSICS_DT;
          vz1 = zc (vel s) + az f * PHYSICS_DT;
          over = (speedOf s > SETTLE_VEL_THRESHOLD \<and> sqrt (vx1 * vx1 + vz1 * vz1) > speedOf s * 1.5);
          vx2 = (if over then 0 else vx1);
          vz2 = (if over then 0 else vz1);
          rev = (speedOf s > SETTLE_VEL_THRESHOLD
                 \<and> vx2 * (vx2 - ax f * PHYSICS_DT) + vz2 * (vz2 - az f * PHYSICS_DT) < 0)
      in \<lparr>xc = (if rev then 0 else vx2), zc = (if rev then 0 else vz2)\<rparr>)"
proof -
  have n: "\<not> (sqrt (xc (vel s) * xc (vel s) + zc (vel s) * zc (vel s)) < SETTLE_VEL_THRESHOLD
       \<and> \<bar>omega s\<bar> < SETTLE_OMEGA_THRESHOLD)"
    using assms(2) unfolding belowSettleThresholds_def .
  show ?thesis
    unfolding integrateStone_def Let_def speedOf_def
    using n by (auto simp add: assms(1))
qed

text \<open>One integration step of a stone without spin whose speed is at least the threshold.\<close>

lemma slide_step:
  fixes icep sweep S
  defines "dl \<equiv> min (mu0 icep * S powr (- 0.5)) (muMax icep)
                   * (if sweep then sweepMuFactor icep else 1) * GRAVITY * PHYSICS_DT"
  assumes ice: "settlingIce icep" and ip: "inPlay s" and om: "omega s = 0"
    and lo: "SETTLE_VEL_THRESHOLD \<le> speedOf s" and hi: "speedOf s \<le> S"
  shows "omega (integrateStone icep sweep s) = 0"
    and "speedOf (integrateStone icep sweep s) = 0
       \<or> speedOf (integrateStone icep sweep s) \<le> speedOf s - dl
       \<or> speedOf (integrateStone icep sweep s) < SETTLE_VEL_THRESHOLD"
proof -
  define sp where "sp = speedOf s"
  define F where "F = mu sp icep sweep * GRAVITY * PHYSICS_DT"
  define r where "r = 1 - F / sp"
  define vx where "vx = xc (vel s)"
  define vz where "vz = zc (vel s)"
  have sp0: "0 < sp" "0.0005 \<le> sp" "0.003 \<le> sp"
    using lo by (simp_all add: sp_def SETTLE_VEL_THRESHOLD_def)
  have ns: "\<not> belowSettleThresholds s"
    using lo by (simp add: belowSettleThresholds_def speedOf_def)
  have F0: "0 < F" using mu_pos [OF ice] by (simp add: F_def GRAVITY_def PHYSICS_DT_def)
  have "dl = (min (mu0 icep * S powr (- 0.5)) (muMax icep)
                * (if sweep then sweepMuFactor icep else 1)) * (GRAVITY * PHYSICS_DT)"
    by (simp add: dl_def)
  also have "\<dots> \<le> mu sp icep sweep * (GRAVITY * PHYSICS_DT)"
    using mu_lower [OF ice sp0(1) hi [folded sp_def], of sweep]
    by (intro mult_right_mono) (simp_all add: GRAVITY_def PHYSICS_DT_def)
  finally have Fd: "dl \<le> F" by (simp add: F_def)
  show o: "omega (integrateStone icep sweep s) = 0"
    by (simp add: omega_integrateStone [OF ip ns] om spinDecay_def)
  have fx: "xc (vel s) + ax (computeIceForces s icep sweep) * PHYSICS_DT = r * vx"
    using sp0 by (simp add: forces_no_spin [OF om sp0(2) [unfolded sp_def]] r_def F_def vx_def
        sp_def [symmetric] field_simps)
  have fz: "zc (vel s) + az (computeIceForces s icep sweep) * PHYSICS_DT = r * vz"
    using sp0 by (simp add: forces_no_spin [OF om sp0(2) [unfolded sp_def]] r_def F_def vz_def
        sp_def [symmetric] field_simps)
  have bx: "r * vx - ax (computeIceForces s icep sweep) * PHYSICS_DT = vx"
    using fx by (simp add: vx_def)
  have bz: "r * vz - az (computeIceForces s icep sweep) * PHYSICS_DT = vz"
    using fz by (simp add: vz_def)
  have sq: "vx * vx + vz * vz = sp * sp"
    by (simp add: vx_def vz_def sp_def speedOf_sq)
  have ns1: "sqrt (r * vx * (r * vx) + r * vz * (r * vz)) = \<bar>r\<bar> * sp"
    by (simp only: sqrt_scaled sq) (simp add: sp0 sp_def)
  have "r * vx * vx + r * vz * vz = r * (vx * vx + vz * vz)"
    by (simp add: algebra_simps)
  then have dot: "r * vx * vx + r * vz * vz = r * (sp * sp)"
    by (simp only: sq)
  have v: "vel (integrateStone icep sweep s) =
     (let over = (sp > SETTLE_VEL_THRESHOLD \<and> \<bar>r\<bar> * sp > sp * 1.5);
          rev = (sp > SETTLE_VEL_THRESHOLD \<and> \<not> over \<and> r * (sp * sp) < 0)
      in if over \<or> rev then \<lparr>xc = 0, zc = 0\<rparr> else \<lparr>xc = r * vx, zc = r * vz\<rparr>)"
    unfolding vel_integrateStone [OF ip ns] Let_def fx fz ns1 sp_def [symmetric]
    by (simp add: bx bz dot)
  have rsp: "r * sp = sp - F" using sp0 by (simp add: r_def field_simps)
  show "speedOf (integrateStone icep sweep s) = 0
       \<or> speedOf (integrateStone icep sweep s) \<le> speedOf s - dl
       \<or> speedOf (integrateStone icep sweep s) < SETTLE_VEL_THRESHOLD"
  proof (cases "vel (integrateStone icep sweep s) = \<lparr>xc = 0, zc = 0\<rparr>")
    case True
    then show ?thesis by (simp add: speedOf_zero_vel)
  next
    case False
    then have nv: "vel (integrateStone icep sweep s) = \<lparr>xc = r * vx, zc = r * vz\<rparr>"
      and nc: "\<not> (sp > SETTLE_VEL_THRESHOLD \<and> \<bar>r\<bar> * sp > sp * 1.5)"
              "\<not> (sp > SETTLE_VEL_THRESHOLD \<and> r * (sp * sp) < 0)"
      unfolding v Let_def by (auto split: if_splits)
    have ne: "speedOf (integrateStone icep sweep s) = \<bar>r\<bar> * sp"
      unfolding speedOf_def nv by (simp add: ns1)
    have "\<bar>r\<bar> * sp = \<bar>r * sp\<bar>"
      using sp0(1) by (simp add: abs_mult)
    then have ar: "\<bar>r\<bar> * sp = \<bar>sp - F\<bar>"
      by (simp only: rsp)
    show ?thesis
    proof (cases "sp > SETTLE_VEL_THRESHOLD")
      case True
      with nc have "\<not> r * (sp * sp) < 0" by simp
      with sp0 have "0 \<le> r" by (simp add: mult_less_0_iff not_less)
      then have "0 \<le> r * sp" using sp0 by simp
      then have "\<bar>r\<bar> * sp = sp - F" using rsp \<open>0 \<le> r\<close> by simp
      with Fd have "speedOf (integrateStone icep sweep s) \<le> speedOf s - dl"
        by (simp add: ne sp_def)
      then show ?thesis by simp
    next
      case False
      with lo have e: "sp = SETTLE_VEL_THRESHOLD" by (simp add: sp_def)
      have "sp \<le> 0.01" by (simp add: e SETTLE_VEL_THRESHOLD_def)
      from mu_slow [OF ice this] have "F < 2 * SETTLE_VEL_THRESHOLD" by (simp add: F_def)
      with F0 have "\<bar>sp - F\<bar> < SETTLE_VEL_THRESHOLD" unfolding e by arith
      then show ?thesis by (simp add: ne ar)
    qed
  qed
qed

lemma resolveWall_out: "\<not> inPlay s \<Longrightarrow> resolveWall s h = s"
  by (cases s) (simp add: resolveWall_def)

lemma applyRulesStone_vel [simp]: "vel (applyRulesStone te s) = vel s"
  by (simp add: applyRulesStone_def Let_def)

lemma applyRulesStone_omega [simp]: "omega (applyRulesStone te s) = omega s"
  by (simp add: applyRulesStone_def Let_def)

lemma stoneStep_out: "\<not> inPlay s \<Longrightarrow> stoneStep icep sweep te s = s"
  by (simp add: stoneStep_def integrateStone_out resolveWall_out applyRulesStone_out)

lemma stoneStep_vel [simp]: "vel (stoneStep icep sweep te s) = vel (integrateStone icep sweep s)"
  by (simp add: stoneStep_def)

lemma stoneStep_omega [simp]:
  "omega (stoneStep icep sweep te s) = omega (integrateStone icep sweep s)"
  by (simp add: stoneStep_def)

lemma stoneStep_speedOf [simp]:
  "speedOf (stoneStep icep sweep te s) = speedOf (integrateStone icep sweep s)"
  by (simp add: speedOf_def)

lemma stoneStep_settled:
  assumes "belowSettleThresholds s"
  shows "atRestOrOut (stoneStep icep sweep te s)"
proof (cases "inPlay s")
  case True
  from integrateStone_settled [OF True assms]
  show ?thesis by (simp add: atRestOrOut_def)
next
  case False
  then show ?thesis by (simp add: stoneStep_out atRestOrOut_def)
qed

lemma atRestOrOut_stoneStep:
  assumes "atRestOrOut s"
  shows "atRestOrOut (stoneStep icep sweep te s)"
proof (cases "inPlay s")
  case True
  with assms have "belowSettleThresholds s"
    by (simp add: atRestOrOut_def zero_belowSettleThresholds)
  then show ?thesis by (rule stoneStep_settled)
next
  case False
  then show ?thesis by (simp add: stoneStep_out atRestOrOut_def)
qed

lemma atRestOrOut_funpow:
  "atRestOrOut s \<Longrightarrow> atRestOrOut ((stoneStep icep sweep te ^^ n) s)"
  by (induction n) (simp_all add: atRestOrOut_stoneStep)

lemma atRestOrOut_later:
  assumes "atRestOrOut ((stoneStep icep sweep te ^^ n) s)" "n \<le> m"
  shows "atRestOrOut ((stoneStep icep sweep te ^^ m) s)"
proof -
  from assms(2) obtain k where m: "m = k + n" by (metis le_Suc_ex add.commute)
  show ?thesis unfolding m funpow_add comp_def by (rule atRestOrOut_funpow [OF assms(1)])
qed

lemma comes_to_rest_step:
  assumes "\<exists>n. atRestOrOut ((stoneStep icep sweep te ^^ n) (stoneStep icep sweep te s))"
  shows "\<exists>n. atRestOrOut ((stoneStep icep sweep te ^^ n) s)"
proof -
  from assms obtain n where "atRestOrOut ((stoneStep icep sweep te ^^ n) (stoneStep icep sweep te s))"
    by blast
  then have "atRestOrOut ((stoneStep icep sweep te ^^ Suc n) s)"
    by (simp only: funpow_Suc_right comp_def)
  then show ?thesis by blast
qed

text \<open>A stone without spin comes to rest or leaves play: its speed falls by a fixed amount.\<close>

lemma slide_comes_to_rest:
  assumes ice: "settlingIce icep" and om: "omega s = 0"
  shows "\<exists>n. atRestOrOut ((stoneStep icep sweep te ^^ n) s)"
proof -
  define S where "S = speedOf s"
  define dl where "dl = min (mu0 icep * S powr (- 0.5)) (muMax icep)
                   * (if sweep then sweepMuFactor icep else 1) * GRAVITY * PHYSICS_DT"
  have key: "omega t = 0 \<Longrightarrow> speedOf t \<le> S \<Longrightarrow> nat \<lceil>speedOf t / dl\<rceil> = k
      \<Longrightarrow> \<exists>n. atRestOrOut ((stoneStep icep sweep te ^^ n) t)" for t k
  proof (induction k arbitrary: t rule: less_induct)
    case (less k)
    show ?case
    proof (cases "inPlay t \<and> SETTLE_VEL_THRESHOLD \<le> speedOf t")
      case False
      show ?thesis
      proof (cases "inPlay t")
        case False
        then have "atRestOrOut ((stoneStep icep sweep te ^^ 0) t)" by (simp add: atRestOrOut_def)
        then show ?thesis by blast
      next
        case True
        with False less.prems(1) have "belowSettleThresholds t"
          by (simp add: belowSettleThresholds_def speedOf_def SETTLE_OMEGA_THRESHOLD_def)
        then have "atRestOrOut ((stoneStep icep sweep te ^^ 1) t)"
          by (simp add: stoneStep_settled)
        then show ?thesis by blast
      qed
    next
      case True
      then have ip: "inPlay t" and lo: "SETTLE_VEL_THRESHOLD \<le> speedOf t" by simp_all
      define t' where "t' = stoneStep icep sweep te t"
      have Spos: "0 < S" using lo less.prems(2) by (simp add: SETTLE_VEL_THRESHOLD_def)
      have dpos: "0 < dl"
        using ice Spos by (simp add: dl_def settlingIce_def GRAVITY_def PHYSICS_DT_def)
      from slide_step [OF ice ip less.prems(1) lo less.prems(2), of sweep]
      have o': "omega t' = 0"
        and alt: "speedOf t' = 0 \<or> speedOf t' \<le> speedOf t - dl
                  \<or> speedOf t' < SETTLE_VEL_THRESHOLD"
        by (simp_all add: t'_def dl_def)
      have "\<exists>n. atRestOrOut ((stoneStep icep sweep te ^^ n) t')"
      proof (cases "speedOf t' < SETTLE_VEL_THRESHOLD")
        case True
        with o' have "belowSettleThresholds t'"
          by (simp add: belowSettleThresholds_def speedOf_def SETTLE_OMEGA_THRESHOLD_def)
        then have "atRestOrOut ((stoneStep icep sweep te ^^ 1) t')"
          by (simp add: stoneStep_settled)
        then show ?thesis by blast
      next
        case False
        with alt have le: "speedOf t' \<le> speedOf t - dl"
          by (auto simp: SETTLE_VEL_THRESHOLD_def)
        then have "speedOf t' / dl \<le> speedOf t / dl - 1"
          using dpos by (simp add: field_simps)
        then have "\<lceil>speedOf t' / dl\<rceil> \<le> \<lceil>speedOf t / dl\<rceil> - 1"
          by (metis ceiling_mono ceiling_diff_one)
        moreover have "0 < speedOf t / dl"
          using lo dpos by (simp add: SETTLE_VEL_THRESHOLD_def)
        then have "0 < \<lceil>speedOf t / dl\<rceil>" by simp
        ultimately have lt: "nat \<lceil>speedOf t' / dl\<rceil> < k"
          using less.prems(3) by arith
        from le dpos less.prems(2) have "speedOf t' \<le> S" by simp
        from less.IH [OF lt o' this refl] show ?thesis .
      qed
      then show ?thesis unfolding t'_def by (rule comes_to_rest_step)
    qed
  qed
  show ?thesis by (rule key [OF om _ refl]) (simp add: S_def)
qed

text \<open>Every stone comes to rest or leaves play: its spin falls by a fixed amount first.\<close>

lemma stone_comes_to_rest:
  assumes ice: "settlingIce icep"
  shows "\<exists>n. atRestOrOut ((stoneStep icep sweep te ^^ n) s)"
proof -
  define e where "e = kSpin icep * STONE_MASS * GRAVITY * PHYSICS_DT"
  have epos: "0 < e"
    using ice by (simp add: e_def settlingIce_def STONE_MASS_def GRAVITY_def PHYSICS_DT_def)
  have key: "nat \<lceil>\<bar>omega t\<bar> / e\<rceil> = k
      \<Longrightarrow> \<exists>n. atRestOrOut ((stoneStep icep sweep te ^^ n) t)" for t k
  proof (induction k arbitrary: t rule: less_induct)
    case (less k)
    show ?case
    proof (cases "omega t = 0")
      case True
      with ice show ?thesis by (rule slide_comes_to_rest)
    next
      case om: False
      show ?thesis
      proof (cases "inPlay t \<and> \<not> belowSettleThresholds t")
        case False
        show ?thesis
        proof (cases "inPlay t")
          case False
          then have "atRestOrOut ((stoneStep icep sweep te ^^ 0) t)" by (simp add: atRestOrOut_def)
          then show ?thesis by blast
        next
          case True
          with False have "belowSettleThresholds t" by simp
          then have "atRestOrOut ((stoneStep icep sweep te ^^ 1) t)"
            by (simp add: stoneStep_settled)
          then show ?thesis by blast
        qed
      next
        case True
        then have ip: "inPlay t" and ns: "\<not> belowSettleThresholds t" by simp_all
        define t' where "t' = stoneStep icep sweep te t"
        from spin_step [OF ice ip ns om, of sweep]
        have alt: "omega t' = 0 \<or> \<bar>omega t'\<bar> \<le> \<bar>omega t\<bar> - e"
          by (simp add: t'_def e_def)
        have "\<exists>n. atRestOrOut ((stoneStep icep sweep te ^^ n) t')"
        proof (cases "omega t' = 0")
          case True
          with ice show ?thesis by (rule slide_comes_to_rest)
        next
          case False
          with alt have le: "\<bar>omega t'\<bar> \<le> \<bar>omega t\<bar> - e" by simp
          then have "\<bar>omega t'\<bar> / e \<le> \<bar>omega t\<bar> / e - 1"
            using epos by (simp add: field_simps)
          then have "\<lceil>\<bar>omega t'\<bar> / e\<rceil> \<le> \<lceil>\<bar>omega t\<bar> / e\<rceil> - 1"
            by (metis ceiling_mono ceiling_diff_one)
          moreover have "0 < \<bar>omega t\<bar> / e"
            using om epos by simp
          then have "0 < \<lceil>\<bar>omega t\<bar> / e\<rceil>" by simp
          ultimately have lt: "nat \<lceil>\<bar>omega t'\<bar> / e\<rceil> < k"
            using less.prems by arith
          from less.IH [OF lt refl] show ?thesis .
        qed
        then show ?thesis unfolding t'_def by (rule comes_to_rest_step)
      qed
    qed
  qed
  show ?thesis by (rule key [OF refl])
qed

subsection \<open>Runs without contact between stones\<close>

lemma filter_upt_single:
  "(\<forall>i<n. P i \<longrightarrow> i = k) \<Longrightarrow> filter P [0..<n] = (if k < n \<and> P k then [k] else [])"
proof (induction n)
  case 0
  then show ?case by simp
next
  case (Suc n)
  from Suc.prems have "\<forall>i<n. P i \<longrightarrow> i = k" by simp
  from Suc.IH [OF this] have ih: "filter P [0..<n] = (if k < n \<and> P k then [k] else [])" .
  show ?case
  proof (cases "P n")
    case True
    with Suc.prems have e: "n = k" by simp
    have "filter P [0..<n] = []" using ih e by simp
    with True show ?thesis by (simp add: e)
  next
    case False
    then have "(k < Suc n \<and> P k) = (k < n \<and> P k)"
      by (cases "k = n") (simp_all add: less_Suc_eq)
    with False ih show ?thesis by simp
  qed
qed

lemma activeIndices_lone:
  assumes "othersOut k sts" "inPlay (sts ! k)"
  shows "activeIndices sts = [k]"
proof -
  from assms(1) have a: "\<forall>i<length sts. inPlay (sts ! i) \<longrightarrow> i = k" and k: "k < length sts"
    unfolding othersOut_def by blast+
  from filter_upt_single [of "length sts" "\<lambda>i. inPlay (sts ! i)" k, OF a] k assms(2)
  show ?thesis by (simp add: activeIndices_def)
qed

lemma othersOut_map_integrate:
  "othersOut k sts \<Longrightarrow> othersOut k (map (integrateStone icep sweep) sts)"
  by (simp add: othersOut_def)

lemma othersOut_update: "othersOut k sts \<Longrightarrow> othersOut k (sts[k := s])"
  by (simp add: othersOut_def)

lemma stepPhysics_lone:
  assumes o: "othersOut k sts" and ip: "inPlay (sts ! k)"
  shows "stepPhysics sts icep sweep ! k
       = resolveWall (integrateStone icep sweep (sts ! k)) (SHEET_WIDTH / 2)"
proof -
  let ?t = "map (integrateStone icep sweep) sts"
  from o have k: "k < length sts" by (simp add: othersOut_def)
  have ip': "inPlay (?t ! k)" using k ip by simp
  have a: "activeIndices ?t = [k]"
    by (rule activeIndices_lone [OF othersOut_map_integrate [OF o] ip'])
  show ?thesis
    using k ip by (simp add: stepPhysics_def resolveCollisions_nth a)
qed

lemma subStep_lone:
  assumes o: "othersOut k (stones w)"
  shows "stones (subStep w)
       = (stones w)[k := stoneStep (ice w) (sweeping w) (targetEnd w) (stones w ! k)]"
proof (rule nth_equalityI)
  show "length (stones (subStep w))
      = length ((stones w)[k := stoneStep (ice w) (sweeping w) (targetEnd w) (stones w ! k)])"
    by simp
next
  fix i
  assume "i < length (stones (subStep w))"
  then have i: "i < length (stones w)" by simp
  from o have k: "k < length (stones w)" by (simp add: othersOut_def)
  show "stones (subStep w) ! i
      = (stones w)[k := stoneStep (ice w) (sweeping w) (targetEnd w) (stones w ! k)] ! i"
  proof (cases "i = k")
    case False
    with o i have "\<not> inPlay (stones w ! i)" by (simp add: othersOut_def)
    from subStep_out [OF i this] False show ?thesis by simp
  next
    case True
    show ?thesis
    proof (cases "inPlay (stones w ! k)")
      case False
      from subStep_out [OF k False] k show ?thesis
        by (simp add: True stoneStep_out [OF False])
    next
      case ip: True
      have "stones (subStep w) ! k
          = applyRulesStone (targetEnd w) (stepPhysics (stones w) (ice w) (sweeping w) ! k)"
        using k by (simp add: subStep_def applyRules_def)
      also have "\<dots> = stoneStep (ice w) (sweeping w) (targetEnd w) (stones w ! k)"
        by (simp only: stepPhysics_lone [OF o ip] stoneStep_def)
      finally show ?thesis using k by (simp add: True)
    qed
  qed
qed

lemma funpow_subStep_fields [simp]:
  "ice ((subStep ^^ n) w) = ice w"
  "sweeping ((subStep ^^ n) w) = sweeping w"
  "targetEnd ((subStep ^^ n) w) = targetEnd w"
  by (induction n) simp_all

lemma funpow_subStep_lone:
  assumes o: "othersOut k (stones w)"
  shows "stones ((subStep ^^ n) w)
       = (stones w)[k := (stoneStep (ice w) (sweeping w) (targetEnd w) ^^ n) (stones w ! k)]"
proof (induction n)
  case 0
  then show ?case by simp
next
  case (Suc n)
  from o have k: "k < length (stones w)" by (simp add: othersOut_def)
  have o': "othersOut k (stones ((subStep ^^ n) w))"
    unfolding Suc.IH by (rule othersOut_update [OF o])
  have "stones ((subStep ^^ Suc n) w) = stones (subStep ((subStep ^^ n) w))" by simp
  also have "\<dots> = (stones ((subStep ^^ n) w))
        [k := stoneStep (ice w) (sweeping w) (targetEnd w) (stones ((subStep ^^ n) w) ! k)]"
    using subStep_lone [OF o'] by simp
  also have "\<dots> = (stones w)
        [k := (stoneStep (ice w) (sweeping w) (targetEnd w) ^^ Suc n) (stones w ! k)]"
    using k by (simp add: Suc.IH)
  finally show ?case .
qed

lemma sameSheet_refl: "sameSheet w w"
  by (simp add: sameSheet_def)

lemma sameSheet_subStep: "sameSheet v w \<Longrightarrow> sameSheet (subStep v) (subStep w)"
  by (simp add: sameSheet_def subStep_def applyRules_def)

lemma sameSheet_funpow: "sameSheet v w \<Longrightarrow> sameSheet ((subStep ^^ n) v) ((subStep ^^ n) w)"
  by (induction n) (simp_all add: sameSheet_subStep)

lemma sameSheet_capAccumulator: "sameSheet v w \<Longrightarrow> sameSheet (capAccumulator v e) w"
  by (simp add: sameSheet_def)

lemma sameSheet_isSimulating: "sameSheet v w \<Longrightarrow> isSimulating v = isSimulating w"
  by (simp add: sameSheet_def isSimulating_def)

lemma sameSheet_updateLoop:
  assumes "sameSheet v ((subStep ^^ m) w)"
  shows "sameSheet (updateLoop (capAccumulator v e))
           ((subStep ^^ (subStepCount (accumulator (capAccumulator v e)) + m)) w)"
  unfolding updateLoop_funpow funpow_add comp_def
  by (rule sameSheet_funpow [OF sameSheet_capAccumulator [OF assms]])

lemma subStepCount_pos:
  assumes "0 \<le> accumulator v" "PHYSICS_DT \<le> e"
  shows "1 \<le> subStepCount (accumulator (capAccumulator v e))"
proof -
  from assms have "PHYSICS_DT \<le> accumulator (capAccumulator v e)"
    by (simp add: capAccumulator_def Let_def PHYSICS_DT_def)
  from subStepCount_step [OF this] show ?thesis by simp
qed

lemma accumulator_updateLoop_nonneg:
  "0 \<le> accumulator w \<Longrightarrow> 0 \<le> accumulator (updateLoop w)"
proof (induction w rule: updateLoop.induct)
  case (1 w)
  then show ?case by (cases "PHYSICS_DT \<le> accumulator w") (simp_all add: updateLoop.simps [of w])
qed

lemma accumulator_capAccumulator_nonneg:
  "0 \<le> accumulator v + e \<Longrightarrow> 0 \<le> accumulator (capAccumulator v e)"
  by (simp add: capAccumulator_def Let_def)

lemma advanceWorld_step:
  "advanceWorld bigStep (Suc n) w = fst (update (advanceWorld bigStep n w) bigStep)"
  by (simp add: advanceWorld_def)

lemma update_moving_iff:
  "snd (update w e) \<longleftrightarrow> isSimulating (updateLoop (capAccumulator w e))"
  by (cases "isSimulating (updateLoop (capAccumulator w e))")
    (simp_all add: update_moving update_settled)

lemma reachesQuiescence_shift:
  assumes "reachesQuiescence bigStep (fst (update w bigStep))"
  shows "reachesQuiescence bigStep w"
proof -
  from assms obtain n where
    "\<not> snd (update (advanceWorld bigStep n (fst (update w bigStep))) bigStep)"
    unfolding reachesQuiescence_def by blast
  then have "\<not> snd (update (advanceWorld bigStep (Suc n) w) bigStep)"
    by (simp add: advanceWorld_Suc)
  then show ?thesis unfolding reachesQuiescence_def by blast
qed

text \<open>
  If the sheet is quiescent from some number of sub-steps on, repeated updates by a step of
  at least one sub-step reach an update that reports no motion.
\<close>

lemma reaches_from_nonneg:
  assumes Q: "\<forall>m\<ge>N. \<not> isSimulating ((subStep ^^ m) w0)"
    and b: "PHYSICS_DT \<le> bigStep"
    and s: "sameSheet v ((subStep ^^ m0) w0)"
    and a: "0 \<le> accumulator v"
  shows "reachesQuiescence bigStep v"
proof (rule ccontr)
  assume "\<not> reachesQuiescence bigStep v"
  then have mv: "snd (update (advanceWorld bigStep n v) bigStep)" for n
    unfolding reachesQuiescence_def by blast
  have b0: "0 \<le> bigStep" using b by (simp add: PHYSICS_DT_def)
  have inv: "\<exists>m\<ge>n. sameSheet (advanceWorld bigStep n v) ((subStep ^^ m) w0)
                  \<and> 0 \<le> accumulator (advanceWorld bigStep n v)" for n
  proof (induction n)
    case 0
    from s a show ?case by auto
  next
    case (Suc n)
    let ?u = "advanceWorld bigStep n v"
    let ?p = "subStepCount (accumulator (capAccumulator ?u bigStep))"
    from Suc obtain m where m: "n \<le> m" "sameSheet ?u ((subStep ^^ m) w0)"
      "0 \<le> accumulator ?u" by blast
    from mv [of n] have "isSimulating (updateLoop (capAccumulator ?u bigStep))"
      by (simp add: update_moving_iff)
    then have e: "advanceWorld bigStep (Suc n) v = updateLoop (capAccumulator ?u bigStep)"
      by (simp add: advanceWorld_step update_moving)
    have p: "1 \<le> ?p" by (rule subStepCount_pos [OF m(3) b])
    have "sameSheet (advanceWorld bigStep (Suc n) v) ((subStep ^^ (?p + m)) w0)"
      unfolding e by (rule sameSheet_updateLoop [OF m(2)])
    moreover have "Suc n \<le> ?p + m" using p m(1) by simp
    moreover have "0 \<le> accumulator (advanceWorld bigStep (Suc n) v)"
      unfolding e using m(3) b0
      by (intro accumulator_updateLoop_nonneg accumulator_capAccumulator_nonneg) simp
    ultimately show ?case by blast
  qed
  let ?u = "advanceWorld bigStep N v"
  let ?p = "subStepCount (accumulator (capAccumulator ?u bigStep))"
  from inv [of N] obtain m where m: "N \<le> m" "sameSheet ?u ((subStep ^^ m) w0)" by blast
  have "sameSheet (updateLoop (capAccumulator ?u bigStep)) ((subStep ^^ (?p + m)) w0)"
    by (rule sameSheet_updateLoop [OF m(2)])
  from sameSheet_isSimulating [OF this] Q m(1)
  have "\<not> isSimulating (updateLoop (capAccumulator ?u bigStep))" by simp
  then have "\<not> snd (update ?u bigStep)" by (simp add: update_moving_iff)
  with mv [of N] show False by blast
qed

lemma reaches_from_any:
  assumes Q: "\<forall>m\<ge>N. \<not> isSimulating ((subStep ^^ m) w0)"
    and b: "PHYSICS_DT \<le> bigStep"
  shows "sameSheet v ((subStep ^^ m0) w0) \<Longrightarrow> nat \<lceil>- accumulator v / bigStep\<rceil> = k
           \<Longrightarrow> reachesQuiescence bigStep v"
proof (induction k arbitrary: v m0 rule: less_induct)
  case (less k)
  have bp: "0 < bigStep" using b by (simp add: PHYSICS_DT_def)
  show ?case
  proof (cases "0 \<le> accumulator v")
    case True
    from reaches_from_nonneg [OF Q b less.prems(1) True] show ?thesis .
  next
    case neg: False
    show ?thesis
    proof (cases "snd (update v bigStep)")
      case False
      then have "\<not> snd (update (advanceWorld bigStep 0 v) bigStep)" by simp
      then show ?thesis unfolding reachesQuiescence_def by blast
    next
      case True
      let ?p = "subStepCount (accumulator (capAccumulator v bigStep))"
      let ?v1 = "fst (update v bigStep)"
      from True have e: "?v1 = updateLoop (capAccumulator v bigStep)"
        by (simp add: update_moving_iff update_moving)
      have s1: "sameSheet ?v1 ((subStep ^^ (?p + m0)) w0)"
        unfolding e by (rule sameSheet_updateLoop [OF less.prems(1)])
      have "reachesQuiescence bigStep ?v1"
      proof (cases "0 \<le> accumulator v + bigStep")
        case True
        then have "0 \<le> accumulator ?v1"
          unfolding e
          by (intro accumulator_updateLoop_nonneg accumulator_capAccumulator_nonneg)
        from reaches_from_nonneg [OF Q b s1 this] show ?thesis .
      next
        case False
        then have c: "accumulator (capAccumulator v bigStep) = accumulator v + bigStep"
          by (simp add: capAccumulator_def Let_def)
        with False have "accumulator (capAccumulator v bigStep) < PHYSICS_DT"
          by (simp add: PHYSICS_DT_def)
        then have "?v1 = capAccumulator v bigStep"
          unfolding e by (rule updateLoop_idle)
        then have a1: "accumulator ?v1 = accumulator v + bigStep" by (simp only: c)
        have "- accumulator ?v1 / bigStep = - accumulator v / bigStep - 1"
          unfolding a1 using bp by (simp add: field_simps)
        then have "\<lceil>- accumulator ?v1 / bigStep\<rceil> = \<lceil>- accumulator v / bigStep\<rceil> - 1"
          by simp
        moreover have "0 < - accumulator v / bigStep"
          using neg bp by (simp add: divide_neg_pos)
        then have "0 < \<lceil>- accumulator v / bigStep\<rceil>" by simp
        ultimately have "nat \<lceil>- accumulator ?v1 / bigStep\<rceil> < k"
          using less.prems(2) by arith
        from less.IH [OF this s1 refl] show ?thesis .
      qed
      then show ?thesis by (rule reachesQuiescence_shift)
    qed
  qed
qed

lemma othersOut_deliverStone:
  assumes "noStoneInPlay w"
  shows "othersOut (length (stones w)) (stones (deliverStone w tm release i))"
  using assms
  by (auto simp: othersOut_def noStoneInPlay_def deliverStone_def Let_def nth_append)

lemma ice_deliverStone [simp]: "ice (deliverStone w tm release i) = ice w"
  by (simp add: deliverStone_def Let_def)

lemma stepPhysics_noContact:
  assumes nc: "noContact (map (integrateStone icep sweep) sts)"
  shows "stepPhysics sts icep sweep
       = map (\<lambda>s. resolveWall (integrateStone icep sweep s) (SHEET_WIDTH / 2)) sts"
proof (rule nth_equalityI)
  show "length (stepPhysics sts icep sweep)
      = length (map (\<lambda>s. resolveWall (integrateStone icep sweep s) (SHEET_WIDTH / 2)) sts)"
    by simp
next
  fix k
  assume "k < length (stepPhysics sts icep sweep)"
  then have k: "k < length sts" by simp
  let ?m = "map (integrateStone icep sweep) sts"
  have "stepPhysics sts icep sweep ! k
      = (if inPlay (?m ! k) then resolveWall (?m ! k) (SHEET_WIDTH / 2) else ?m ! k)"
    unfolding stepPhysics_def using nc k by (intro resolveCollisions_noContact) simp_all
  also have "\<dots> = resolveWall (?m ! k) (SHEET_WIDTH / 2)"
    by (simp add: resolveWall_out)
  finally show "stepPhysics sts icep sweep ! k
      = map (\<lambda>s. resolveWall (integrateStone icep sweep s) (SHEET_WIDTH / 2)) sts ! k"
    using k by simp
qed

lemma subStep_noContact:
  assumes "noContact (map (integrateStone (ice w) (sweeping w)) (stones w))"
  shows "stones (subStep w) = map (stoneStep (ice w) (sweeping w) (targetEnd w)) (stones w)"
  by (simp add: subStep_def applyRules_def stepPhysics_noContact [OF assms] stoneStep_def comp_def)

lemma funpow_subStep_contactFree:
  assumes "contactFreeRun w"
  shows "stones ((subStep ^^ m) w)
       = map (stoneStep (ice w) (sweeping w) (targetEnd w) ^^ m) (stones w)"
proof (induction m)
  case 0
  then show ?case by simp
next
  case (Suc m)
  from assms have "noContact (map (integrateStone (ice ((subStep ^^ m) w)) (sweeping ((subStep ^^ m) w)))
      (stones ((subStep ^^ m) w)))"
    by (simp add: contactFreeRun_def)
  from subStep_noContact [OF this]
  have "stones ((subStep ^^ Suc m) w)
      = map (stoneStep (ice w) (sweeping w) (targetEnd w)) (stones ((subStep ^^ m) w))"
    by simp
  then show ?case by (simp add: Suc.IH)
qed

lemma stones_come_to_rest:
  assumes ice: "settlingIce icep"
  shows "\<exists>N. \<forall>s\<in>set sts. atRestOrOut ((stoneStep icep sweep te ^^ N) s)"
proof (induction sts)
  case Nil
  then show ?case by simp
next
  case (Cons a sts)
  then obtain N where N: "\<forall>s\<in>set sts. atRestOrOut ((stoneStep icep sweep te ^^ N) s)" by blast
  from stone_comes_to_rest [OF ice] obtain M where
    M: "atRestOrOut ((stoneStep icep sweep te ^^ M) a)" by blast
  have "atRestOrOut ((stoneStep icep sweep te ^^ max M N) s)" if "s \<in> set (a # sts)" for s
  proof (cases "s = a")
    case True
    show ?thesis unfolding True by (rule atRestOrOut_later [OF M]) simp
  next
    case False
    with that N have "atRestOrOut ((stoneStep icep sweep te ^^ N) s)" by simp
    then show ?thesis by (rule atRestOrOut_later) simp
  qed
  then show ?case by blast
qed

text \<open>From some number of sub-steps on, a world whose run is free of contact is not simulating.\<close>

lemma contactFree_world_quiescent:
  assumes ice: "settlingIce (ice w)" and cf: "contactFreeRun w"
  shows "\<exists>N. \<forall>m\<ge>N. \<not> isSimulating ((subStep ^^ m) w)"
proof -
  let ?f = "stoneStep (ice w) (sweeping w) (targetEnd w)"
  from stones_come_to_rest [OF ice] obtain N where
    N: "\<forall>s\<in>set (stones w). atRestOrOut ((?f ^^ N) s)" by blast
  have "\<not> isSimulating ((subStep ^^ m) w)" if "N \<le> m" for m
  proof -
    have "\<forall>t\<in>set (stones ((subStep ^^ m) w)). atRestOrOut t"
    proof
      fix t
      assume "t \<in> set (stones ((subStep ^^ m) w))"
      then obtain s where s: "s \<in> set (stones w)" "t = (?f ^^ m) s"
        unfolding funpow_subStep_contactFree [OF cf] by auto
      from N s(1) have "atRestOrOut ((?f ^^ N) s)" by blast
      then show "atRestOrOut t" unfolding s(2) using that by (rule atRestOrOut_later)
    qed
    then show ?thesis unfolding isSimulating_iff atRestOrOut_def by auto
  qed
  then show ?thesis by blast
qed

lemma contactFree_world_reachesQuiescence:
  assumes ice: "settlingIce (ice w)" and cf: "contactFreeRun w"
    and b: "PHYSICS_DT \<le> bigStep"
  shows "reachesQuiescence bigStep w"
proof -
  from contactFree_world_quiescent [OF ice cf] obtain N where
    Q: "\<forall>m\<ge>N. \<not> isSimulating ((subStep ^^ m) w)" by blast
  have "sameSheet w ((subStep ^^ 0) w)" by (simp add: sameSheet_refl)
  from reaches_from_any [OF Q b this refl] show ?thesis .
qed

text \<open>A world with at most one stone in play has a run free of contact.\<close>

lemma othersOut_contactFreeRun:
  assumes o: "othersOut k (stones w)"
  shows "contactFreeRun w"
  unfolding contactFreeRun_def
proof
  fix m
  let ?t = "map (integrateStone (ice w) (sweeping w)) (stones ((subStep ^^ m) w))"
  have "othersOut k (stones ((subStep ^^ m) w))"
    unfolding funpow_subStep_lone [OF o] by (rule othersOut_update [OF o])
  then have o': "othersOut k ?t" by (rule othersOut_map_integrate)
  show "noContact ?t"
    unfolding noContact_def
  proof (intro allI impI)
    fix i j
    assume i: "i < length ?t" and j: "j < length ?t" and p: "inPlay (?t ! i) \<and> inPlay (?t ! j)"
    from o' i j p have "i = k" "j = k" unfolding othersOut_def by blast+
    then show "\<not> inContact (?t ! i) (?t ! j)" by (simp add: not_inContact_self)
  qed
qed

subsection \<open>A stone that slides to rest in the house\<close>

lemma throwStone_slideGame: "world (throwStone slideGame slideRelease) = slideWorld 0"
  by (simp add: throwStone_def slideGame_def newGameController_def newPhysicsWorld_def
      deliverStone_def Let_def slideRelease_def currentTeam_def slideWorld_def slideStone_def)

lemma powr_slide:
  fixes sp :: real
  assumes "0 < sp" "sp \<le> 7"
  shows "0.06 \<le> sp powr (- 0.5)"
proof -
  have s: "sqrt 7 \<le> 3" by (rule real_le_lsqrt) simp_all
  have "(7::real) powr (- 0.5) = 1 / sqrt 7"
    by (simp add: powr_minus powr_half_sqrt field_simps)
  also have "\<dots> \<ge> 1 / 3" using s by (simp add: field_simps)
  finally have "0.06 \<le> (7::real) powr (- 0.5)" by simp
  also have "\<dots> \<le> sp powr (- 0.5)" using assms by (intro powr_mono2') simp_all
  finally show ?thesis .
qed

lemma mu_slide:
  assumes "0 < sp" "sp \<le> 7"
  shows "mu sp slideIce False = 0.06"
  using powr_slide [OF assms]
  by (simp add: mu_def Let_def slideIce_def DEFAULT_ICE_PARAMS_def min_def)

lemma pos_integrateStone:
  assumes "inPlay s"
  shows "pos (integrateStone icep sweep s)
       = \<lparr>xc = xc (pos s) + xc (vel (integrateStone icep sweep s)) * PHYSICS_DT,
          zc = zc (pos s) + zc (vel (integrateStone icep sweep s)) * PHYSICS_DT\<rparr>"
  using assms by (simp add: integrateStone_def Let_def)

lemma angle_integrateStone:
  assumes "inPlay s" "\<not> belowSettleThresholds s"
  shows "angle (integrateStone icep sweep s)
       = angle s + (omega s + spinDecay (omega s) (speedOf s) icep * PHYSICS_DT) * PHYSICS_DT"
proof -
  have n: "\<not> (sqrt (xc (vel s) * xc (vel s) + zc (vel s) * zc (vel s)) < SETTLE_VEL_THRESHOLD
       \<and> \<bar>omega s\<bar> < SETTLE_OMEGA_THRESHOLD)"
    using assms(2) unfolding belowSettleThresholds_def .
  show ?thesis
    unfolding integrateStone_def Let_def alphaOmega_computeIceForces
    using n by (auto simp add: assms(1))
qed

lemma integrateStone_kept [simp]:
  "team (integrateStone icep sweep s) = team s"
  "deliveryIndex (integrateStone icep sweep s) = deliveryIndex s"
  by (simp_all add: integrateStone_def Let_def)

text \<open>One integration step of a stone sliding straight toward the far house on that ice.\<close>

lemma integrate_straight:
  assumes lo: "0.005405 \<le> sp" and hi: "sp \<le> 7"
  shows "integrateStone slideIce False
           \<lparr>pos = \<lparr>xc = 0, zc = z\<rparr>, vel = \<lparr>xc = 0, zc = - sp\<rparr>, omega = 0, angle = 0,
            team = t, inPlay = True, deliveryIndex = i\<rparr>
       = \<lparr>pos = \<lparr>xc = 0, zc = z - (sp - 0.004905) / 120\<rparr>,
          vel = \<lparr>xc = 0, zc = - (sp - 0.004905)\<rparr>, omega = 0, angle = 0,
          team = t, inPlay = True, deliveryIndex = i\<rparr>"
proof -
  define s where "s = \<lparr>pos = \<lparr>xc = 0, zc = z\<rparr>, vel = \<lparr>xc = 0, zc = - sp\<rparr>, omega = 0,
      angle = 0, team = t, inPlay = True, deliveryIndex = i\<rparr>"
  have f: "pos s = \<lparr>xc = 0, zc = z\<rparr>" "vel s = \<lparr>xc = 0, zc = - sp\<rparr>" "omega s = 0"
    "angle s = 0" "team s = t" "inPlay s" "deliveryIndex s = i"
    by (simp_all add: s_def)
  have sp0: "0 < sp" using lo by simp
  have sps: "speedOf s = sp" using sp0 by (simp add: speedOf_def f)
  have ns: "\<not> belowSettleThresholds s"
    using lo sps by (simp add: belowSettleThresholds_def speedOf_def SETTLE_VEL_THRESHOLD_def)
  have half: "0.0005 \<le> speedOf s" using lo sps by simp
  have m: "mu sp slideIce False = 0.06" by (rule mu_slide [OF sp0 hi])
  have fx: "ax (computeIceForces s slideIce False) = 0"
    by (simp add: forces_no_spin(1) [OF f(3) half] f sps)
  have fz: "az (computeIceForces s slideIce False) = 0.06 * 9.81"
    using sp0 by (simp add: forces_no_spin(2) [OF f(3) half] f sps m GRAVITY_def)
  have q: "sqrt ((sp - 0.004905) * (sp - 0.004905)) = sp - 0.004905"
    using lo by simp
  have nv: "vel (integrateStone slideIce False s) = \<lparr>xc = 0, zc = - (sp - 0.004905)\<rparr>"
  proof -
    have vz1: "zc (vel s) + az (computeIceForces s slideIce False) * PHYSICS_DT
        = - (sp - 0.004905)"
      by (simp add: f fz PHYSICS_DT_def)
    have vx1: "xc (vel s) + ax (computeIceForces s slideIce False) * PHYSICS_DT = 0"
      by (simp add: f fx)
    have q': "sqrt (0 * 0 + - (sp - 0.004905) * - (sp - 0.004905)) = sp - 0.004905"
      using q by simp
    have bk: "- (sp - 0.004905) - az (computeIceForces s slideIce False) * PHYSICS_DT = - sp"
      by (simp add: fz PHYSICS_DT_def)
    have nov: "\<not> (SETTLE_VEL_THRESHOLD < sp \<and> sp * 1.5 < sp - 0.004905)"
      using sp0 by simp
    have nr: "\<not> (SETTLE_VEL_THRESHOLD < sp \<and> - (sp - 0.004905) * - sp < 0)"
    proof
      assume "SETTLE_VEL_THRESHOLD < sp \<and> - (sp - 0.004905) * - sp < 0"
      then have "- (sp - 0.004905) * - sp < 0" by (rule conjunct2)
      moreover have "- (sp - 0.004905) * - sp = (sp - 0.004905) * sp"
        by (simp only: minus_mult_minus)
      moreover have "0 \<le> (sp - 0.004905) * sp" using lo by simp
      ultimately show False by linarith
    qed
    show ?thesis
      unfolding vel_integrateStone [OF f(6) ns] Let_def vx1 vz1 q' sps
      by (simp only: nov if_False bk mult_zero_left add_0_left nr)
  qed
  have nom: "omega (integrateStone slideIce False s) = 0"
    by (simp add: omega_integrateStone [OF f(6) ns] f spinDecay_def)
  have na: "angle (integrateStone slideIce False s) = 0"
    by (simp add: angle_integrateStone [OF f(6) ns] f spinDecay_def)
  have np: "pos (integrateStone slideIce False s) = \<lparr>xc = 0, zc = z - (sp - 0.004905) / 120\<rparr>"
    by (simp add: pos_integrateStone [OF f(6)] nv f PHYSICS_DT_def field_simps)
  have "integrateStone slideIce False s
       = \<lparr>pos = \<lparr>xc = 0, zc = z - (sp - 0.004905) / 120\<rparr>,
          vel = \<lparr>xc = 0, zc = - (sp - 0.004905)\<rparr>, omega = 0, angle = 0,
          team = t, inPlay = True, deliveryIndex = i\<rparr>"
    by (rule StoneState.equality) (simp_all add: np nv nom na f)
  then show ?thesis by (simp only: s_def)
qed

lemma slide_speed:
  assumes "k < 1320"
  shows "0.005405 \<le> 6.4751 - real k * 0.004905" "6.4751 - real k * 0.004905 \<le> (7::real)"
proof -
  from assms have "real k \<le> 1319" by simp
  then show "0.005405 \<le> 6.4751 - real k * 0.004905" by simp
  show "6.4751 - real k * 0.004905 \<le> (7::real)" by simp
qed

lemma slide_distance:
  fixes x :: real
  assumes "0 \<le> x"
  shows "x * 6.4751 - 0.004905 * (x * (x + 1) / 2) \<le> 4845"
proof -
  define q where "q = (x - 1320)\<^sup>2"
  define D where "D = x * 6.4751 - 0.004905 * (x * (x + 1) / 2)"
  have "0 \<le> q" by (simp add: q_def)
  moreover have "4845 - D = (981 / 400000) * q + (781 / 400000) * x + 142941 / 250"
    by (simp add: q_def D_def power2_eq_square field_simps)
  ultimately have "D \<le> 4845" using assms by linarith
  then show ?thesis by (simp only: D_def)
qed

lemma slideStone_fields [simp]:
  "inPlay (slideStone k)"
  "xc (pos (slideStone k)) = 0"
  "omega (slideStone k) = 0"
  "xc (vel (slideStone k)) = 0"
  "zc (vel (slideStone k)) = - (6.4751 - real k * 0.004905)"
  by (simp_all add: slideStone_def)

lemma stoneStep_slide:
  assumes "k < 1320"
  shows "stoneStep slideIce False TowardNegZ (slideStone k) = slideStone (Suc k)"
proof -
  have "integrateStone slideIce False (slideStone k)
      = \<lparr>pos = \<lparr>xc = 0, zc = HACK_Z - (real k * 6.4751 - 0.004905 * (real k * (real k + 1) / 2)) / 120
                       - (6.4751 - real k * 0.004905 - 0.004905) / 120\<rparr>,
         vel = \<lparr>xc = 0, zc = - (6.4751 - real k * 0.004905 - 0.004905)\<rparr>, omega = 0, angle = 0,
         team = Red, inPlay = True, deliveryIndex = 0\<rparr>"
    unfolding slideStone_def by (rule integrate_straight [OF slide_speed [OF assms]])
  also have "\<dots> = slideStone (Suc k)"
    by (simp add: slideStone_def field_simps)
  finally have i: "integrateStone slideIce False (slideStone k) = slideStone (Suc k)" .
  define D where "D = real (Suc k) * 6.4751 - 0.004905 * (real (Suc k) * (real (Suc k) + 1) / 2)"
  have d: "D \<le> 4845" unfolding D_def by (rule slide_distance) simp
  have z: "zc (pos (slideStone (Suc k))) = HACK_Z - D / 120"
    by (simp only: slideStone_def D_def StoneState.select_convs Vec2.select_convs)
  have nb: "\<not> zc (pos (slideStone (Suc k))) < te_val TowardNegZ * BACK_LINE_Z - STONE_RADIUS"
    unfolding z using d
    by (simp add: BACK_LINE_Z_def TEE_Z_def HACK_Z_def FT_def STONE_RADIUS_def)
  have nx: "\<not> \<bar>xc (pos (slideStone (Suc k)))\<bar> > HALF_WIDTH + STONE_RADIUS * 2"
    by (simp add: HALF_WIDTH_def SHEET_WIDTH_def FT_def STONE_RADIUS_def)
  have w: "resolveWall (slideStone (Suc k)) (SHEET_WIDTH / 2) = slideStone (Suc k)"
    by (simp add: resolveWall_def SHEET_WIDTH_def FT_def STONE_RADIUS_def)
  have r: "applyRulesStone TowardNegZ (slideStone (Suc k)) = slideStone (Suc k)"
    unfolding applyRulesStone_def Let_def using nb nx by simp
  show ?thesis by (simp only: stoneStep_def i w r)
qed

lemma othersOut_single: "othersOut 0 [s]"
  by (simp add: othersOut_def)

lemma subStep_slide:
  assumes "k < 1320"
  shows "subStep ((slideWorld k)\<lparr>accumulator := a\<rparr>)
       = (slideWorld (Suc k))\<lparr>accumulator := a - PHYSICS_DT\<rparr>"
proof (rule PhysicsWorld.equality)
  have o: "othersOut 0 (stones ((slideWorld k)\<lparr>accumulator := a\<rparr>))"
    by (simp add: slideWorld_def othersOut_single)
  show "stones (subStep ((slideWorld k)\<lparr>accumulator := a\<rparr>))
      = stones ((slideWorld (Suc k))\<lparr>accumulator := a - PHYSICS_DT\<rparr>)"
    unfolding subStep_lone [OF o]
    by (simp add: slideWorld_def stoneStep_slide [OF assms])
qed (simp_all add: slideWorld_def)

lemma abs_slide: "\<bar>zc (vel (slideStone k))\<bar> = \<bar>6.4751 - real k * 0.004905\<bar>"
  by (simp only: slideStone_fields abs_minus)

lemma isSimulating_slide:
  assumes "k < 1320"
  shows "isSimulating (slideWorld k)"
proof -
  from slide_speed(1) [OF assms] have "\<bar>6.4751 - real k * 0.004905\<bar> > 0.001" by simp
  then have "\<bar>zc (vel (slideStone k))\<bar> > 0.001" by (simp only: abs_slide)
  then show ?thesis by (simp add: isSimulating_def slideWorld_def del: slideStone_fields(5))
qed

lemma not_isSimulating_slide: "\<not> isSimulating (slideWorld 1320)"
  by (simp add: isSimulating_def slideWorld_def)

lemma capAccumulator_slide:
  "capAccumulator (slideWorld k) (1 / 120) = (slideWorld k)\<lparr>accumulator := 1 / 120\<rparr>"
  by (simp add: capAccumulator_def Let_def slideWorld_def)

lemma updateLoop_slide:
  assumes "k < 1320"
  shows "updateLoop ((slideWorld k)\<lparr>accumulator := 1 / 120\<rparr>) = slideWorld (Suc k)"
proof -
  have "updateLoop ((slideWorld k)\<lparr>accumulator := 1 / 120\<rparr>)
      = updateLoop (subStep ((slideWorld k)\<lparr>accumulator := 1 / 120\<rparr>))"
    by (subst updateLoop.simps) (simp add: PHYSICS_DT_def)
  also have "\<dots> = updateLoop ((slideWorld (Suc k))\<lparr>accumulator := 1 / 120 - PHYSICS_DT\<rparr>)"
    by (simp only: subStep_slide [OF assms])
  also have "\<dots> = (slideWorld (Suc k))\<lparr>accumulator := 1 / 120 - PHYSICS_DT\<rparr>"
    by (rule updateLoop_idle) (simp add: PHYSICS_DT_def)
  also have "\<dots> = slideWorld (Suc k)"
    by (simp add: slideWorld_def PHYSICS_DT_def)
  finally show ?thesis .
qed

lemma update_slide_moving:
  assumes "k < 1319"
  shows "update (slideWorld k) (1 / 120) = (slideWorld (Suc k), True)"
proof -
  from assms have k: "k < 1320" and k1: "Suc k < 1320" by simp_all
  have u: "updateLoop (capAccumulator (slideWorld k) (1 / 120)) = slideWorld (Suc k)"
    by (simp only: capAccumulator_slide updateLoop_slide [OF k])
  have "isSimulating (updateLoop (capAccumulator (slideWorld k) (1 / 120)))"
    unfolding u by (rule isSimulating_slide [OF k1])
  from update_moving [OF this] show ?thesis by (simp only: u)
qed

lemma hogLineCheck_slide: "hogLineCheck (slideWorld 1320) = slideWorld 1320"
proof -
  have z: "zc (pos (slideStone 1320)) = HACK_Z - 35.5888225"
    by (simp add: slideStone_def)
  have "\<not> checkHogLineViolation (slideStone 1320) TowardNegZ"
    by (simp add: checkHogLineViolation_def Let_def z HACK_Z_def HOG_Z_def TEE_Z_def FT_def
        STONE_RADIUS_def)
  then show ?thesis
    by (simp add: hogLineCheck_def Let_def slideWorld_def)
qed

lemma update_slide_last:
  "update (slideWorld 1319) (1 / 120)
     = ((slideWorld 1320)\<lparr>deliveredStoneIndex := - 1\<rparr>, False)"
proof -
  have u: "updateLoop (capAccumulator (slideWorld 1319) (1 / 120)) = slideWorld 1320"
    using updateLoop_slide [of 1319] by (simp add: capAccumulator_slide)
  have "\<not> isSimulating (updateLoop (capAccumulator (slideWorld 1319) (1 / 120)))"
    unfolding u by (rule not_isSimulating_slide)
  from update_settled [OF this] show ?thesis by (simp only: u hogLineCheck_slide)
qed

lemma advance_slide:
  "k \<le> 1319 \<Longrightarrow> advanceWorld (1 / 120) k (slideWorld 0) = slideWorld k"
proof (induction k)
  case 0
  then show ?case by simp
next
  case (Suc k)
  then have "k < 1319" by simp
  with Suc show ?case by (simp add: advanceWorld_step update_slide_moving)
qed

lemma subStepCount_one: "subStepCount (1 / 120) = 1"
  by (simp add: subStepCount_def PHYSICS_DT_def)

lemma runUntilSettled_slide:
  "runUntilSettled (1 / 120) (slideWorld 0) 0
     = Some ((slideWorld 1320)\<lparr>deliveredStoneIndex := - 1\<rparr>, 1320)"
proof -
  let ?w0 = "slideWorld 0"
  have q: "\<not> snd (update (advanceWorld (1 / 120) 1319 ?w0) (1 / 120))"
    by (simp add: advance_slide update_slide_last)
  from runUntilSettled_terminates [OF q, of 0] obtain y where
    y: "runUntilSettled (1 / 120) ?w0 0 = Some y" by blast
  from runUntilSettled_Some [OF y] obtain n where
    n: "\<forall>i<n. snd (update (advanceWorld (1 / 120) i ?w0) (1 / 120))"
      "\<not> snd (update (advanceWorld (1 / 120) n ?w0) (1 / 120))"
      "fst y = fst (update (advanceWorld (1 / 120) n ?w0) (1 / 120))"
      "snd y = 0 + (\<Sum>i\<le>n. subStepCount
                  (accumulator (capAccumulator (advanceWorld (1 / 120) i ?w0) (1 / 120))))"
    by blast
  have n1: "n = 1319"
  proof (rule ccontr)
    assume "n \<noteq> 1319"
    then consider "n < 1319" | "1319 < n" by arith
    then show False
    proof cases
      case 1
      then have "snd (update (advanceWorld (1 / 120) n ?w0) (1 / 120))"
        by (simp add: advance_slide update_slide_moving)
      with n(2) show False by blast
    next
      case 2
      with n(1) have "snd (update (advanceWorld (1 / 120) 1319 ?w0) (1 / 120))" by blast
      with q show False by blast
    qed
  qed
  have f: "fst y = (slideWorld 1320)\<lparr>deliveredStoneIndex := - 1\<rparr>"
    unfolding n(3) n1 by (simp add: advance_slide update_slide_last)
  have t: "subStepCount (accumulator (capAccumulator (advanceWorld (1 / 120) i ?w0) (1 / 120))) = 1"
    if "i \<in> {..1319}" for i
  proof -
    from that have "i \<le> 1319" by simp
    then show ?thesis
      by (simp add: advance_slide capAccumulator_slide subStepCount_one)
  qed
  have "snd y = (\<Sum>i\<le>1319. subStepCount
                  (accumulator (capAccumulator (advanceWorld (1 / 120) i ?w0) (1 / 120))))"
    unfolding n(4) n1 by simp
  also have "\<dots> = (\<Sum>i\<le>(1319::nat). 1)"
    by (rule sum.cong [OF refl t])
  also have "\<dots> = 1320" by simp
  finally have s: "snd y = 1320" .
  have "y = ((slideWorld 1320)\<lparr>deliveredStoneIndex := - 1\<rparr>, 1320)"
    using f s by (cases y) simp
  with y show ?thesis by simp
qed

lemma phase_slideGame: "phase slideGame = AIMING"
  by (simp add: slideGame_def newGameController_def)

lemma throwAndSettle_slide:
  "throwAndSettle (1 / 120) slideGame slideRelease
     = Some (slideSettled,
             Inr \<lparr>steps = 1320, finalState = getState slideSettled, tr_score = None\<rparr>)"
proof -
  let ?c1 = "throwStone slideGame slideRelease"
  have r: "runUntilSettled (1 / 120) (world ?c1) 0
      = Some ((slideWorld 1320)\<lparr>deliveredStoneIndex := - 1\<rparr>, 1320)"
    by (simp only: throwStone_slideGame runUntilSettled_slide)
  have q: "\<not> isSimulating ((slideWorld 1320)\<lparr>deliveredStoneIndex := - 1\<rparr>)"
    using not_isSimulating_slide by (simp add: isSimulating_def)
  have d: "deliveryCount ?c1 = 1"
    by (simp add: throwStone_def slideGame_def newGameController_def)
  have p: "phase (?c1\<lparr>world := (slideWorld 1320)\<lparr>deliveredStoneIndex := - 1\<rparr>, phase := AIMING\<rparr>)
      = AIMING" by simp
  show ?thesis
    unfolding throwAndSettle_def Let_def slideSettled_def
    by (simp add: phase_slideGame r q d)
qed

subsection \<open>Two stones on separate lines\<close>

lemma ax_no_spin:
  assumes "xc (vel s) = 0" "omega s = 0"
  shows "ax (computeIceForces s icep sweep) = 0"
  using assms by (simp add: computeIceForces_def Let_def)

lemma integrateStone_straight_line:
  assumes v: "xc (vel s) = 0" and o: "omega s = 0"
  shows "xc (vel (integrateStone icep sweep s)) = 0"
    and "omega (integrateStone icep sweep s) = 0"
    and "xc (pos (integrateStone icep sweep s)) = xc (pos s)"
proof -
  have a: "xc (vel (integrateStone icep sweep s)) = 0 \<and> omega (integrateStone icep sweep s) = 0"
  proof (cases "inPlay s")
    case False
    then show ?thesis by (simp add: integrateStone_out v o)
  next
    case ip: True
    show ?thesis
    proof (cases "belowSettleThresholds s")
      case True
      then show ?thesis by (simp add: integrateStone_settled [OF ip])
    next
      case False
      have "xc (vel (integrateStone icep sweep s)) = 0"
        by (simp add: vel_integrateStone [OF ip False] Let_def ax_no_spin [OF v o] v)
      moreover have "omega (integrateStone icep sweep s) = 0"
        by (simp add: omega_integrateStone [OF ip False] o spinDecay_def)
      ultimately show ?thesis by simp
    qed
  qed
  then show "xc (vel (integrateStone icep sweep s)) = 0"
    and "omega (integrateStone icep sweep s) = 0" by simp_all
  show "xc (pos (integrateStone icep sweep s)) = xc (pos s)"
  proof (cases "inPlay s")
    case False
    then show ?thesis by (simp add: integrateStone_out)
  next
    case True
    from a show ?thesis by (simp add: pos_integrateStone [OF True])
  qed
qed

lemma stoneStep_pos [simp]:
  "pos (stoneStep icep sweep te s) = pos (integrateStone icep sweep s)"
  by (simp add: stoneStep_def)

lemma centreDist_ge_dx: "\<bar>xc (pos b) - xc (pos a)\<bar> \<le> centreDist a b"
  unfolding centreDist_def
  by (rule real_le_rsqrt) (simp add: power2_eq_square)

text \<open>
  Two stones that move along the lines \<open>x = 1.5\<close> and \<open>x = 0\<close> without spin stay on these
  lines and never touch.
\<close>

lemma twoLines_noContact:
  assumes l: "length sts = 2"
    and x: "xc (pos (sts ! 0)) = 1.5" "xc (pos (sts ! 1)) = 0"
  shows "noContact sts"
  unfolding noContact_def
proof (intro allI impI)
  fix i j
  assume i: "i < length sts" and j: "j < length sts"
  show "\<not> inContact (sts ! i) (sts ! j)"
  proof (cases "i = j")
    case True
    then show ?thesis by (simp add: not_inContact_self)
  next
    case False
    with i j l have "(i = 0 \<and> j = 1) \<or> (i = 1 \<and> j = 0)" by arith
    then have "\<bar>xc (pos (sts ! j)) - xc (pos (sts ! i))\<bar> = 1.5" using x by auto
    with centreDist_ge_dx [of "sts ! j" "sts ! i"] have "1.5 \<le> centreDist (sts ! i) (sts ! j)"
      by simp
    then show ?thesis by (simp add: inContact_def CONTACT_DIST_def STONE_RADIUS_def)
  qed
qed

lemma twoLines_map:
  assumes l: "length sts = 2"
    and x: "xc (pos (sts ! 0)) = 1.5" "xc (pos (sts ! 1)) = 0"
    and v: "\<forall>s\<in>set sts. xc (vel s) = 0 \<and> omega s = 0"
    and f: "\<And>s. xc (vel s) = 0 \<Longrightarrow> omega s = 0 \<Longrightarrow>
              xc (vel (f s)) = 0 \<and> omega (f s) = 0 \<and> xc (pos (f s)) = xc (pos s)"
  shows "length (map f sts) = 2"
    and "xc (pos (map f sts ! 0)) = 1.5"
    and "xc (pos (map f sts ! 1)) = 0"
    and "\<forall>s\<in>set (map f sts). xc (vel s) = 0 \<and> omega s = 0"
proof -
  from l have m0: "sts ! 0 \<in> set sts" and m1: "sts ! 1 \<in> set sts" by simp_all
  from l have n0: "map f sts ! 0 = f (sts ! 0)" and n1: "map f sts ! 1 = f (sts ! 1)"
    by simp_all
  show "length (map f sts) = 2" using l by simp
  from f [of "sts ! 0"] v m0 have "xc (pos (f (sts ! 0))) = xc (pos (sts ! 0))" by blast
  then show "xc (pos (map f sts ! 0)) = 1.5" by (simp only: n0 x)
  from f [of "sts ! 1"] v m1 have "xc (pos (f (sts ! 1))) = xc (pos (sts ! 1))" by blast
  then show "xc (pos (map f sts ! 1)) = 0" by (simp only: n1 x)
  show "\<forall>s\<in>set (map f sts). xc (vel s) = 0 \<and> omega s = 0"
  proof
    fix s
    assume "s \<in> set (map f sts)"
    then obtain t where t: "t \<in> set sts" "s = f t" by auto
    from f [of t] v t(1) show "xc (vel s) = 0 \<and> omega s = 0" unfolding t(2) by blast
  qed
qed

lemma integrateStone_keeps_line:
  "xc (vel s) = 0 \<Longrightarrow> omega s = 0 \<Longrightarrow>
     xc (vel (integrateStone icep sweep s)) = 0 \<and> omega (integrateStone icep sweep s) = 0
     \<and> xc (pos (integrateStone icep sweep s)) = xc (pos s)"
  by (intro conjI integrateStone_straight_line)

lemma stoneStep_keeps_line:
  "xc (vel s) = 0 \<Longrightarrow> omega s = 0 \<Longrightarrow>
     xc (vel (stoneStep icep sweep te s)) = 0 \<and> omega (stoneStep icep sweep te s) = 0
     \<and> xc (pos (stoneStep icep sweep te s)) = xc (pos s)"
  unfolding stoneStep_vel stoneStep_omega stoneStep_pos
  by (rule integrateStone_keeps_line)

lemma twoLines_contactFreeRun:
  assumes l: "length (stones w) = 2"
    and x: "xc (pos (stones w ! 0)) = 1.5" "xc (pos (stones w ! 1)) = 0"
    and v: "\<forall>s\<in>set (stones w). xc (vel s) = 0 \<and> omega s = 0"
  shows "contactFreeRun w"
proof -
  define P where "P = (\<lambda>sts :: StoneState list. length sts = 2 \<and> xc (pos (sts ! 0)) = 1.5
      \<and> xc (pos (sts ! 1)) = 0 \<and> (\<forall>s\<in>set sts. xc (vel s) = 0 \<and> omega s = 0))"
  have P_int: "P (map (integrateStone icep sweep) sts)" if "P sts" for sts icep sweep
    using that twoLines_map [of sts "integrateStone icep sweep", OF _ _ _ _ integrateStone_keeps_line]
    unfolding P_def by blast
  have P_step: "P (map (stoneStep icep sweep te) sts)" if "P sts" for sts icep sweep te
    using that twoLines_map [of sts "stoneStep icep sweep te", OF _ _ _ _ stoneStep_keeps_line]
    unfolding P_def by blast
  have P_nc: "noContact sts" if "P sts" for sts
    using that unfolding P_def by (intro twoLines_noContact) blast+
  have inv: "P (stones ((subStep ^^ m) w))" for m
  proof (induction m)
    case 0
    from l x v show ?case unfolding P_def by simp
  next
    case (Suc m)
    let ?u = "(subStep ^^ m) w"
    have nc: "noContact (map (integrateStone (ice ?u) (sweeping ?u)) (stones ?u))"
      by (rule P_nc [OF P_int [OF Suc]])
    have "stones ((subStep ^^ Suc m) w)
        = map (stoneStep (ice ?u) (sweeping ?u) (targetEnd ?u)) (stones ?u)"
      using subStep_noContact [OF nc] by simp
    then show ?case by (simp only: P_step [OF Suc])
  qed
  show ?thesis
    unfolding contactFreeRun_def
  proof
    fix m
    have "noContact (map (integrateStone (ice ((subStep ^^ m) w)) (sweeping ((subStep ^^ m) w)))
        (stones ((subStep ^^ m) w)))"
      by (rule P_nc [OF P_int [OF inv]])
    then show "noContact (map (integrateStone (ice w) (sweeping w)) (stones ((subStep ^^ m) w)))"
      by simp
  qed
qed

lemma throwStone_world:
  "phase c = AIMING \<Longrightarrow>
     world (throwStone c release)
       = deliverStone (world c) (currentTeam c) release (deliveryCount c)"
  by (simp add: throwStone_def)

lemma stones_deliverStone:
  "stones (deliverStone w tm r i)
     = stones w @ [\<lparr>pos = \<lparr>xc = rel_x r, zc = (if targetEnd w = TowardNegZ then HACK_Z else - HACK_Z)\<rparr>,
                    vel = \<lparr>xc = - te_val (targetEnd w) * sin (rel_angle r) * rel_speed r,
                           zc = te_val (targetEnd w) * cos (rel_angle r) * rel_speed r\<rparr>,
                    omega = rel_omega r, angle = 0, team = tm, inPlay = True,
                    deliveryIndex = i\<rparr>]"
  by (simp add: deliverStone_def Let_def)

lemma phase_guardGame: "phase guardGame = AIMING"
  by (simp add: guardGame_def newGameController_def)

lemma guardGame_contactFreeRun:
  "contactFreeRun (world (throwStone guardGame straightRelease))"
proof -
  let ?w = "world (throwStone guardGame straightRelease)"
  have g: "stones (world guardGame) = [mkStone 1.5 (- 17) Red True 0]"
    by (simp add: guardGame_def)
  have r: "rel_x straightRelease = 0" "rel_angle straightRelease = 0"
    "rel_omega straightRelease = 0"
    by (simp_all add: straightRelease_def)
  have s: "stones ?w = [mkStone 1.5 (- 17) Red True 0,
         \<lparr>pos = \<lparr>xc = 0, zc = (if targetEnd (world guardGame) = TowardNegZ then HACK_Z else - HACK_Z)\<rparr>,
          vel = \<lparr>xc = 0, zc = te_val (targetEnd (world guardGame)) * rel_speed straightRelease\<rparr>,
          omega = 0, angle = 0, team = currentTeam guardGame, inPlay = True,
          deliveryIndex = deliveryCount guardGame\<rparr>]"
    by (simp add: throwStone_world [OF phase_guardGame] stones_deliverStone g r)
  show ?thesis
    by (rule twoLines_contactFreeRun) (simp_all add: s mkStone_def)
qed

subsection \<open>Deliver and run to quiescence\<close>

lemma throwStone_contactFreeRun:
  assumes a: "phase c = AIMING" and n: "noStoneInPlay (world c)"
  shows "contactFreeRun (world (throwStone c release))"
  unfolding throwStone_world [OF a]
  by (rule othersOut_contactFreeRun [OF othersOut_deliverStone [OF n]])

lemma throwStone_reachesQuiescence:
  assumes a: "phase c = AIMING" and ice: "settlingIce (ice (world c))"
    and cf: "contactFreeRun (world (throwStone c release))" and b: "PHYSICS_DT \<le> bigStep"
  shows "reachesQuiescence bigStep (world (throwStone c release))"
proof -
  have "settlingIce (ice (world (throwStone c release)))"
    using ice by (simp add: throwStone_world [OF a])
  from contactFree_world_reachesQuiescence [OF this cf b] show ?thesis .
qed

lemma settlingIce_slideIce: "settlingIce slideIce"
  by (simp add: settlingIce_def slideIce_def DEFAULT_ICE_PARAMS_def STONE_MASS_def GRAVITY_def
      PHYSICS_DT_def SETTLE_OMEGA_THRESHOLD_def SETTLE_VEL_THRESHOLD_def)




end
